theory Spec2Isabelle
  imports Complex_Main
begin

section \<open>The transport layer of pytube (request.py)\<close>

text \<open>
  A shallow embedding of \<^verbatim>\<open>src/pytube/request.py\<close>. Python exceptions are values of
  the type \<open>error\<close>; a function that can raise returns \<open>error + 'a\<close>. The module-level
  dictionaries (\<^verbatim>\<open>last_url\<close>, the \<^verbatim>\<open>lru_cache\<close> of \<^verbatim>\<open>get_dns_ip\<close>) and the network are
  an explicit \<open>world\<close> that every function takes and returns. What the standard library
  and the absent module \<^verbatim>\<open>pytube.helpers\<close> compute is a parameter, collected in the
  record \<open>env\<close>.
\<close>

subsection \<open>Data\<close>

type_synonym bytes = string

type_synonym dict = "string \<rightharpoonup> string"

text \<open>The \<^verbatim>\<open>reason\<close> attribute of a \<^verbatim>\<open>URLError\<close>: an instance of \<^verbatim>\<open>socket.timeout\<close> or not.\<close>

datatype reason = SocketTimeout | OtherReason string

datatype error =
    ValueError string
  | URLError reason
  | HTTPError nat
  | IncompleteRead
  | MaxRetriesExceeded
  | RegexMatchError string bytes
  | UnboundLocalError string
  | KeyError string
  | IndexError
  | TypeError
  | UnicodeDecodeError
  | OSError string

datatype timeout = GLOBAL_DEFAULT_TIMEOUT | Seconds real

text \<open>The \<^verbatim>\<open>data\<close> argument: raw bytes, or a Python object for \<^verbatim>\<open>json.dumps\<close>.\<close>

datatype 'j payload = Bytes bytes | Object 'j

text \<open>What \<^verbatim>\<open>Request(front_url, headers=..., method=..., data=...)\<close> is built from.\<close>

record 'j request =
  full_url :: string
  req_headers :: dict
  req_method :: "string option"
  req_data :: "'j payload option"

text \<open>
  An open response handle: the header lines in the order received, the bytes that
  \<^verbatim>\<open>read\<close> delivers, and the exception (if any) that \<^verbatim>\<open>read\<close> raises once these bytes
  are delivered, instead of signalling the end with an empty chunk.
\<close>

record response =
  info :: "(string \<times> string) list"
  body :: bytes
  read_error :: "error option"

text \<open>The result of \<^verbatim>\<open>urllib.parse.urlsplit\<close>.\<close>

record split_result =
  scheme :: string
  netloc :: string
  path :: string
  query :: string

text \<open>
  The JSON answer of the DNS-over-HTTPS endpoint, as \<^verbatim>\<open>json.loads\<close> returns it. A
  key that the object does not have is \<open>None\<close>: looking it up raises \<^verbatim>\<open>KeyError\<close>.
\<close>

record dns_entry =
  rr_name :: "string option"
  rr_data :: "string option"

record dns_json =
  Question :: "dns_entry list option"
  Answer :: "dns_entry list option"

text \<open>One entry of the list that \<^verbatim>\<open>socket.getaddrinfo\<close> returns.\<close>

datatype sockaddr = Inet string nat | Inet6 string nat nat nat

record addrinfo =
  ai_family :: int
  ai_type :: int
  ai_proto :: int
  ai_canonname :: string
  ai_sockaddr :: sockaddr

text \<open>The arguments of \<^verbatim>\<open>getaddrinfo\<close>: host, port, family, type, proto, flags.\<close>

type_synonym gai_args = "string \<times> nat \<times> int \<times> int \<times> int \<times> int"

text \<open>
  The parameters. \<open>urlopen env k r t\<close> is what the \<open>k\<close>-th network call of the run
  returns or raises when it is made for request \<open>r\<close> with timeout \<open>t\<close>.
  \<open>make_fronted_url\<close> and \<open>split_redirector_url\<close> are the helpers of these names
  (module \<^verbatim>\<open>pytube.helpers\<close>, which is not among the source files); the other fields are the
  standard library: the truth value and the JSON text of a Python object and the empty
  dictionary \<^verbatim>\<open>{}\<close>, \<^verbatim>\<open>bytes.decode\<close>, \<^verbatim>\<open>int\<close> on a string, \<^verbatim>\<open>urllib.parse\<close>,
  \<^verbatim>\<open>json.loads\<close> and the platform's own \<^verbatim>\<open>socket.getaddrinfo\<close>.
\<close>

record 'j env =
  get_ident :: nat
  make_fronted_url :: "string \<Rightarrow> string \<times> string option"
  truthy :: "'j \<Rightarrow> bool"
  json_dumps :: "'j \<Rightarrow> bytes"
  empty_dict :: "'j"
  urlopen :: "nat \<Rightarrow> 'j request \<Rightarrow> timeout \<Rightarrow> error + response"
  decode_utf8 :: "bytes \<Rightarrow> error + string"
  py_int :: "string \<Rightarrow> error + int"
  urlsplit :: "string \<Rightarrow> error + split_result"
  parse_qsl :: "string \<Rightarrow> (string \<times> string) list"
  urlencode :: "(string \<times> string) list \<Rightarrow> string"
  json_loads :: "string \<Rightarrow> error + dns_json"
  split_redirector_url :: "string \<Rightarrow> error + string list"
  orig_getaddrinfo :: "gai_args \<Rightarrow> error + addrinfo list"

text \<open>
  The mutable state: the network calls made so far (oldest first), the module-level
  dictionary \<^verbatim>\<open>last_url\<close> keyed by thread identity, the dictionary objects that
  callers hold references to (by address), and the stores of the three
  \<^verbatim>\<open>lru_cache\<close> decorators (most recently used entry first).
\<close>

record 'j world =
  sent :: "('j request \<times> timeout) list"
  last_url :: "nat \<rightharpoonup> string"
  heap :: "nat \<Rightarrow> dict"
  dns_cache :: "(string \<times> string) list"
  filesize_cache :: "(string \<times> int) list"
  seq_filesize_cache :: "(string \<times> int) list"

text \<open>A generator's run: the chunks it yielded, then how it ended.\<close>

datatype finish = Returned | Raised error

subsection \<open>Strings\<close>

definition lower_char :: "char \<Rightarrow> char" where
  "lower_char c =
     (let n = (of_char c :: nat) in if 65 \<le> n \<and> n \<le> 90 then char_of (n + 32) else c)"

definition lower :: "string \<Rightarrow> string" where
  "lower s = map lower_char s"

definition startswith :: "string \<Rightarrow> string \<Rightarrow> bool" where
  "startswith s p = (take (length p) s = p)"

definition digit_char :: "nat \<Rightarrow> char" where
  "digit_char d = char_of (48 + d)"

fun str_nat :: "nat \<Rightarrow> string" where
  "str_nat n = (if n < 10 then [digit_char n] else str_nat (n div 10) @ [digit_char (n mod 10)])"

declare str_nat.simps [simp del]

text \<open>The decimal text of an integer, as an f-string prints it.\<close>

definition str_int :: "int \<Rightarrow> string" where
  "str_int i = (if i < 0 then CHR ''-'' # str_nat (nat (- i)) else str_nat (nat i))"

text \<open>\<^verbatim>\<open>sub in s\<close>.\<close>

fun contains :: "string \<Rightarrow> string \<Rightarrow> bool" where
  "contains sub [] = (sub = [])"
| "contains sub (c # cs) = (startswith (c # cs) sub \<or> contains sub cs)"

definition is_digit :: "char \<Rightarrow> bool" where
  "is_digit c = (let n = (of_char c :: nat) in 48 \<le> n \<and> n \<le> 57)"

text \<open>\<^verbatim>\<open>int\<close> on a non-empty run of ASCII digits.\<close>

definition int_of_digits :: "bytes \<Rightarrow> int" where
  "int_of_digits ds = foldl (\<lambda>n c. 10 * n + (int (of_char c) - 48)) 0 ds"

text \<open>\<^verbatim>\<open>segment_data.split(b'\r\n')\<close>.\<close>

fun split_crlf :: "bytes \<Rightarrow> bytes list" where
  "split_crlf [] = [[]]"
| "split_crlf [c] = [[c]]"
| "split_crlf (c # d # cs) =
     (if c = CHR 0x0D \<and> d = CHR 0x0A then [] # split_crlf cs
      else case split_crlf (d # cs) of [] \<Rightarrow> [[c]] | l # ls \<Rightarrow> (c # l) # ls)"


text \<open>
  \<^verbatim>\<open>re.compile(segment_regex).search(line)\<close>: group 1 of the leftmost match, the
  digits taken greedily, or \<open>None\<close> where nothing matches.
\<close>

fun segment_count_search :: "bytes \<Rightarrow> bytes option" where
  "segment_count_search [] = None"
| "segment_count_search (c # cs) =
     (let digits = takeWhile is_digit (drop 15 (c # cs))
      in if startswith (c # cs) ''Segment-Count: '' \<and> digits \<noteq> [] then Some digits
         else segment_count_search cs)"

text \<open>A dictionary that keeps the order of insertion: \<^verbatim>\<open>d[k] = v\<close> and \<^verbatim>\<open>dict(pairs)\<close>.\<close>

fun dict_set :: "string \<Rightarrow> string \<Rightarrow> (string \<times> string) list \<Rightarrow> (string \<times> string) list" where
  "dict_set k v [] = [(k, v)]"
| "dict_set k v ((k', v') # d) = (if k' = k then (k, v) # d else (k', v') # dict_set k v d)"

definition dict_of_pairs :: "(string \<times> string) list \<Rightarrow> (string \<times> string) list" where
  "dict_of_pairs ps = foldl (\<lambda>d (k, v). dict_set k v d) [] ps"

subsection \<open>The request executor\<close>

definition default_range_size :: int where
  "default_range_size = 9437184"

definition base_headers :: "string option \<Rightarrow> dict \<Rightarrow> dict" where
  "base_headers host headers =
     (let base = [''User-Agent'' \<mapsto> ''Mozilla/5.0'', ''accept-language'' \<mapsto> ''en-US,en''];
          base = (case host of None \<Rightarrow> base | Some h \<Rightarrow> base(''Host'' \<mapsto> h))
      in base ++ headers)"

definition encode_data :: "'j env \<Rightarrow> 'j payload option \<Rightarrow> 'j payload option" where
  "encode_data env data =
     (case data of
        Some (Object j) \<Rightarrow> if truthy env j then Some (Bytes (json_dumps env j)) else data
      | _ \<Rightarrow> data)"

text \<open>
  \<^verbatim>\<open>_execute_request\<close>. \<^verbatim>\<open>headers=None\<close> and an empty dictionary both leave the base
  headers as they are, which is what \<open>++\<close> with the empty map does.
\<close>

definition execute_request ::
  "'j env \<Rightarrow> string \<Rightarrow> string option \<Rightarrow> dict option \<Rightarrow> 'j payload option \<Rightarrow> timeout \<Rightarrow>
   'j world \<Rightarrow> (error + response) \<times> 'j world" where
  "execute_request env url method headers data tmo w =
     (let w = w\<lparr>last_url := (last_url w)(get_ident env \<mapsto> url)\<rparr>;
          (front_url, host) = make_fronted_url env url;
          hs = base_headers host (case headers of None \<Rightarrow> Map.empty | Some h \<Rightarrow> h);
          data = encode_data env data
      in if startswith (lower front_url) ''http''
         then let request = \<lparr>full_url = front_url, req_headers = hs,
                              req_method = method, req_data = data\<rparr>
              in (urlopen env (length (sent w)) request tmo,
                  w\<lparr>sent := sent w @ [(request, tmo)]\<rparr>)
         else (Inl (ValueError ''Invalid URL''), w))"

subsection \<open>The chunked retrying stream reader\<close>

definition range_suffix :: "int \<Rightarrow> string" where
  "range_suffix start_byte_pos =
     (if start_byte_pos = 0 then ''''
      else ''&range='' @ str_int start_byte_pos @ ''-99999999999'')"

text \<open>
  The \<^verbatim>\<open>except\<close> clauses of the retry loop: \<open>True\<close> where the handler ends in
  \<^verbatim>\<open>pass\<close>, \<open>False\<close> where the exception leaves the loop (re-raised by the handler, or
  matched by no clause). An \<^verbatim>\<open>HTTPError\<close> is a \<^verbatim>\<open>URLError\<close> whose reason is its message.
\<close>

fun passes :: "error \<Rightarrow> bool" where
  "passes (URLError r) = (r = SocketTimeout)"
| "passes IncompleteRead = True"
| "passes _ = False"

text \<open>The inner \<^verbatim>\<open>while True\<close> loop of \<^verbatim>\<open>stream\<close>, entered with the given \<open>tries\<close>.\<close>

function attempt ::
  "'j env \<Rightarrow> string \<Rightarrow> timeout \<Rightarrow> int \<Rightarrow> int \<Rightarrow> int \<Rightarrow> 'j world \<Rightarrow>
   (error + response) \<times> 'j world" where
  "attempt env url tmo max_retries start_byte_pos tries w =
     (if tries \<ge> 1 + max_retries then (Inl MaxRetriesExceeded, w)
      else let (r, w') = execute_request env (url @ range_suffix start_byte_pos)
                           (Some ''GET'') None None tmo w
           in if isl r \<and> passes (projl r)
              then attempt env url tmo max_retries start_byte_pos (tries + 1) w'
              else (r, w'))"
  by pat_completeness auto
termination
  by (relation "measure (\<lambda>(env, url, tmo, max_retries, start_byte_pos, tries, w).
                  nat (1 + max_retries - tries))") auto

declare attempt.simps [simp del]

text \<open>
  The loop \<^verbatim>\<open>while True: chunk = response.read(32768)\<close> over a body that is delivered
  in full: the chunks that it yields.
\<close>

function read_chunks :: "bytes \<Rightarrow> bytes list" where
  "read_chunks b = (if b = [] then [] else take 32768 b # read_chunks (drop 32768 b))"
  by pat_completeness auto
termination
  by (relation "measure length") auto

declare read_chunks.simps [simp del]

text \<open>
  \<^verbatim>\<open>response.info()[name]\<close>: the value of the first header line of that name, compared
  without case; \<open>None\<close> where there is no such line (this lookup does not raise).
\<close>

definition msg_get :: "(string \<times> string) list \<Rightarrow> string \<Rightarrow> string option" where
  "msg_get hs name = map_option snd (find (\<lambda>(k, v). lower k = lower name) hs)"

text \<open>\<^verbatim>\<open>except (KeyError, IndexError, ValueError)\<close>.\<close>

fun caught :: "error \<Rightarrow> bool" where
  "caught (KeyError _) = True"
| "caught IndexError = True"
| "caught (ValueError _) = True"
| "caught _ = False"

text \<open>
  The block under \<^verbatim>\<open>if file_size == default_range_size\<close>: the new \<open>file_size\<close> and
  \<open>downloaded\<close>, or the exception that the \<^verbatim>\<open>except\<close> clause does not catch
  (\<^verbatim>\<open>int(None)\<close> is a \<^verbatim>\<open>TypeError\<close>).
\<close>

definition discover_size ::
  "'j env \<Rightarrow> response \<Rightarrow> int \<Rightarrow> int \<Rightarrow> int \<Rightarrow> error + int \<times> int" where
  "discover_size env response start_byte_pos file_size downloaded =
     (if file_size = default_range_size
      then case (case msg_get (info response) ''Content-Length'' of
                   None \<Rightarrow> Inl TypeError
                 | Some content_range \<Rightarrow> py_int env content_range) of
             Inr n \<Rightarrow> Inr (n, start_byte_pos)
           | Inl e \<Rightarrow> if caught e then Inr (file_size, downloaded) else Inl e
      else Inr (file_size, downloaded))"

text \<open>
  The outer loop \<^verbatim>\<open>while downloaded < file_size\<close> of \<^verbatim>\<open>stream\<close>, which need not end:
  \<open>None\<close> is a generator that is never exhausted.
\<close>

partial_function (option) stream_loop ::
  "'j env \<Rightarrow> string \<Rightarrow> timeout \<Rightarrow> int \<Rightarrow> int \<Rightarrow> int \<Rightarrow> int \<Rightarrow> 'j world \<Rightarrow>
   (bytes list \<times> finish \<times> 'j world) option" where
  "stream_loop env url tmo max_retries start_byte_pos file_size downloaded w =
     (if downloaded < file_size
      then case attempt env url tmo max_retries start_byte_pos 0 w of
             (Inl e, w') \<Rightarrow> Some ([], Raised e, w')
           | (Inr response, w') \<Rightarrow>
               (case discover_size env response start_byte_pos file_size downloaded of
                  Inl e \<Rightarrow> Some ([], Raised e, w')
                | Inr (file_size', downloaded') \<Rightarrow>
                    (let chunks = read_chunks (body response)
                     in case read_error response of
                          Some e \<Rightarrow> Some (chunks, Raised e, w')
                        | None \<Rightarrow>
                            Option.bind
                              (stream_loop env url tmo max_retries start_byte_pos file_size'
                                 (downloaded' + int (sum_list (map length chunks))) w')
                              (\<lambda>(rest, fin, w''). Some (chunks @ rest, fin, w''))))
      else Some ([], Returned, w))"

definition stream ::
  "'j env \<Rightarrow> string \<Rightarrow> timeout \<Rightarrow> int \<Rightarrow> int \<Rightarrow> 'j world \<Rightarrow>
   (bytes list \<times> finish \<times> 'j world) option" where
  "stream env url tmo max_retries start_byte_pos w =
     stream_loop env url tmo max_retries start_byte_pos default_range_size 0 w"

subsection \<open>get, post, head and filesize\<close>

text \<open>\<^verbatim>\<open>response.read()\<close>: the whole body, or the exception of the read.\<close>

definition read_all :: "response \<Rightarrow> error + bytes" where
  "read_all response = (case read_error response of None \<Rightarrow> Inr (body response) | Some e \<Rightarrow> Inl e)"

definition read_text :: "'j env \<Rightarrow> error + response \<Rightarrow> error + string" where
  "read_text env r =
     (case r of
        Inl e \<Rightarrow> Inl e
      | Inr response \<Rightarrow> (case read_all response of Inl e \<Rightarrow> Inl e | Inr b \<Rightarrow> decode_utf8 env b))"


text \<open>
  \<^verbatim>\<open>post\<close>: \<^verbatim>\<open>extra_headers.update(...)\<close> writes to the object that the argument refers
  to: the caller's own dictionary, unless the argument was \<open>None\<close> and a new one was made.
\<close>

definition post ::
  "'j env \<Rightarrow> string \<Rightarrow> nat option \<Rightarrow> 'j payload option \<Rightarrow> timeout \<Rightarrow> 'j world \<Rightarrow>
   (error + string) \<times> 'j world" where
  "post env url extra_headers data tmo w =
     (let data = (case data of None \<Rightarrow> Some (Object (empty_dict env)) | Some d \<Rightarrow> Some d);
          (hs, w) = (case extra_headers of
                       None \<Rightarrow> ([''Content-Type'' \<mapsto> ''application/json''], w)
                     | Some a \<Rightarrow>
                         (let d = (heap w a)(''Content-Type'' \<mapsto> ''application/json'')
                          in (d, w\<lparr>heap := (heap w)(a := d)\<rparr>)));
          (r, w') = execute_request env url None (Some hs) data tmo w
      in (read_text env r, w'))"






subsection \<open>The sequential segment reader and size prober\<close>

text \<open>\<^verbatim>\<open>'%s://%s/%s?' % (split_url.scheme, split_url.netloc, split_url.path)\<close>.\<close>

definition base_url :: "split_result \<Rightarrow> string" where
  "base_url split_url = scheme split_url @ ''://'' @ netloc split_url @ ''/'' @ path split_url @ ''?''"

text \<open>\<^verbatim>\<open>querys['sq'] = seq_num\<close>, then \<^verbatim>\<open>base_url + parse.urlencode(querys)\<close>.\<close>

definition set_sq :: "int \<Rightarrow> (string \<times> string) list \<Rightarrow> (string \<times> string) list" where
  "set_sq seq_num querys = dict_set ''sq'' (str_int seq_num) querys"

text \<open>
  The \<^verbatim>\<open>for line in stream_info\<close> loop of \<^verbatim>\<open>seq_stream\<close>: \<open>None\<close> is the local variable
  \<^verbatim>\<open>segment_count\<close> never assigned.
\<close>

definition find_segment_count :: "bytes \<Rightarrow> int option" where
  "find_segment_count segment_data =
     fold (\<lambda>line segment_count.
             case segment_count_search line of
               None \<Rightarrow> segment_count
             | Some digits \<Rightarrow> Some (int_of_digits digits))
          (split_crlf segment_data) None"

text \<open>The \<^verbatim>\<open>while seq_num <= segment_count\<close> loop of \<^verbatim>\<open>seq_stream\<close>.\<close>

partial_function (option) seq_stream_loop ::
  "'j env \<Rightarrow> timeout \<Rightarrow> int \<Rightarrow> string \<Rightarrow> (string \<times> string) list \<Rightarrow> int \<Rightarrow> int \<Rightarrow> 'j world \<Rightarrow>
   (bytes list \<times> finish \<times> 'j world) option" where
  "seq_stream_loop env tmo max_retries base querys segment_count seq_num w =
     (if seq_num \<le> segment_count
      then let querys = set_sq seq_num querys;
               url = base @ urlencode env querys
           in Option.bind (stream env url tmo max_retries 0 w)
                (\<lambda>(chunks, fin, w').
                   case fin of
                     Raised e \<Rightarrow> Some (chunks, Raised e, w')
                   | Returned \<Rightarrow>
                       Option.bind
                         (seq_stream_loop env tmo max_retries base querys segment_count
                            (seq_num + 1) w')
                         (\<lambda>(rest, fin', w''). Some (chunks @ rest, fin', w'')))
      else Some ([], Returned, w))"

definition seq_stream ::
  "'j env \<Rightarrow> string \<Rightarrow> timeout \<Rightarrow> int \<Rightarrow> 'j world \<Rightarrow> (bytes list \<times> finish \<times> 'j world) option" where
  "seq_stream env url tmo max_retries w =
     (case urlsplit env url of
        Inl e \<Rightarrow> Some ([], Raised e, w)
      | Inr split_url \<Rightarrow>
          (let querys = dict_of_pairs (parse_qsl env (query split_url));
               querys = set_sq 0 querys;
               url = base_url split_url @ urlencode env querys
           in Option.bind (stream env url tmo max_retries 0 w)
                (\<lambda>(chunks, fin, w').
                   case fin of
                     Raised e \<Rightarrow> Some (chunks, Raised e, w')
                   | Returned \<Rightarrow>
                       (case find_segment_count (concat chunks) of
                          None \<Rightarrow> Some (chunks, Raised (UnboundLocalError ''segment_count''), w')
                        | Some segment_count \<Rightarrow>
                            Option.bind
                              (seq_stream_loop env tmo max_retries (base_url split_url) querys
                                 segment_count 1 w')
                              (\<lambda>(rest, fin', w''). Some (chunks @ rest, fin', w''))))))"







subsection \<open>The DNS-over-HTTPS resolver and the address override\<close>

definition dns_resolver :: "string \<times> string" where
  "dns_resolver = (''google-public-dns-a.google.com'', ''216.239.36.36'')"

text \<open>
  One pass of \<^verbatim>\<open>for answer in json_data["Answer"]\<close>: the working value and the flag
  \<open>search\<close> after the pass.
\<close>

fun scan :: "dns_entry list \<Rightarrow> string \<Rightarrow> bool \<Rightarrow> error + string \<times> bool" where
  "scan [] ip search = Inr (ip, search)"
| "scan (answer # answers) ip search =
     (case rr_name answer of
        None \<Rightarrow> Inl (KeyError ''name'')
      | Some n \<Rightarrow>
          if ip = n
          then (case rr_data answer of
                  None \<Rightarrow> Inl (KeyError ''data'')
                | Some d \<Rightarrow> scan answers d True)
          else scan answers ip search)"

text \<open>The \<^verbatim>\<open>while search\<close> loop, which need not end: \<open>None\<close> is a call that never returns.\<close>

partial_function (option) search_loop ::
  "dns_entry list option \<Rightarrow> string \<Rightarrow> (error + string) option" where
  "search_loop answers ip =
     (case answers of
        None \<Rightarrow> Some (Inl (KeyError ''Answer''))
      | Some as \<Rightarrow>
          (case scan as ip False of
             Inl e \<Rightarrow> Some (Inl e)
           | Inr (ip', search) \<Rightarrow> if search then search_loop answers ip' else Some (Inr ip')))"

definition read_ip_from_dns_answer :: "dns_json \<Rightarrow> (error + string) option" where
  "read_ip_from_dns_answer json_data =
     (case Question json_data of
        None \<Rightarrow> Some (Inl (KeyError ''Question''))
      | Some [] \<Rightarrow> Some (Inl IndexError)
      | Some (q # _) \<Rightarrow>
          (case rr_name q of
             None \<Rightarrow> Some (Inl (KeyError ''name''))
           | Some ip \<Rightarrow> search_loop (Answer json_data) ip))"

text \<open>The function under the decorator \<^verbatim>\<open>lru_cache\<close>.\<close>

definition get_dns_ip_body ::
  "'j env \<Rightarrow> string \<Rightarrow> 'j world \<Rightarrow> ((error + string) \<times> 'j world) option" where
  "get_dns_ip_body env domain_name w =
     (let url = ''https://www.google.com/resolve?name='' @ domain_name;
          request = \<lparr>full_url = url,
                     req_headers = [''User-Agent'' \<mapsto> ''Mozilla/5.0'',
                                    ''accept-language'' \<mapsto> ''en-US,en'',
                                    ''Host'' \<mapsto> fst dns_resolver],
                     req_method = None, req_data = None\<rparr>;
          w = w\<lparr>last_url := (last_url w)(get_ident env \<mapsto> url)\<rparr>;
          res = urlopen env (length (sent w)) request GLOBAL_DEFAULT_TIMEOUT;
          w = w\<lparr>sent := sent w @ [(request, GLOBAL_DEFAULT_TIMEOUT)]\<rparr>
      in case read_text env res of
           Inl e \<Rightarrow> Some (Inl e, w)
         | Inr text \<Rightarrow>
             (case json_loads env text of
                Inl e \<Rightarrow> Some (Inl e, w)
              | Inr json_data \<Rightarrow>
                  map_option (\<lambda>r. (r, w)) (read_ip_from_dns_answer json_data)))"

definition get_dns_ip ::
  "'j env \<Rightarrow> string \<Rightarrow> 'j world \<Rightarrow> ((error + string) \<times> 'j world) option" where
  "get_dns_ip env domain_name w =
     (case map_of (dns_cache w) domain_name of
        Some ip \<Rightarrow>
          Some (Inr ip, w\<lparr>dns_cache := (domain_name, ip) #
                             filter (\<lambda>(k, _). k \<noteq> domain_name) (dns_cache w)\<rparr>)
      | None \<Rightarrow>
          (case get_dns_ip_body env domain_name w of
             None \<Rightarrow> None
           | Some (Inl e, w') \<Rightarrow> Some (Inl e, w')
           | Some (Inr ip, w') \<Rightarrow>
               Some (Inr ip, w'\<lparr>dns_cache := take 128 ((domain_name, ip) # dns_cache w')\<rparr>)))"

text \<open>\<^verbatim>\<open>res = [list(res[0])]\<close>, then \<^verbatim>\<open>res[0][4] = (addr, 443)\<close>.\<close>

definition redirect :: "addrinfo list \<Rightarrow> string \<Rightarrow> error + addrinfo list" where
  "redirect res addr =
     (case res of
        [] \<Rightarrow> Inl IndexError
      | first # _ \<Rightarrow> Inr [first\<lparr>ai_sockaddr := Inet addr 443\<rparr>])"

definition patched_getaddrinfo ::
  "'j env \<Rightarrow> gai_args \<Rightarrow> 'j world \<Rightarrow> ((error + addrinfo list) \<times> 'j world) option" where
  "patched_getaddrinfo env args w =
     (case orig_getaddrinfo env args of
        Inl e \<Rightarrow> Some (Inl e, w)
      | Inr res \<Rightarrow>
          (case last_url w (get_ident env) of
             None \<Rightarrow> Some (Inr res, w)
           | Some url \<Rightarrow>
               if url = [] then Some (Inr res, w)
               else if contains ''/resolve'' url
               then Some (redirect res (snd dns_resolver), w)
               else if contains ''googlevideo.com'' url
               then (case res of
                       [] \<Rightarrow> Some (Inl IndexError, w)
                     | first # _ \<Rightarrow>
                         (case split_redirector_url env url of
                            Inl e \<Rightarrow> Some (Inl e, w)
                          | Inr [] \<Rightarrow> Some (Inl IndexError, w)
                          | Inr (domain_name # _) \<Rightarrow>
                              (case get_dns_ip env domain_name w of
                                 None \<Rightarrow> None
                               | Some (Inl e, w') \<Rightarrow> Some (Inl e, w')
                               | Some (Inr addr, w') \<Rightarrow> Some (redirect res addr, w'))))
               else Some (Inr res, w)))"

subsection \<open>Concrete environments for the examples\<close>

text \<open>
  An environment without fronting and for one thread, over a given network. Its
  \<open>urlsplit\<close> knows two URLs, its \<open>py_int\<close> reads plain decimal digits.
\<close>

definition example_urlsplit :: "string \<Rightarrow> error + split_result" where
  "example_urlsplit url =
     (if url = ''not-a-url''
      then Inr \<lparr>scheme = '''', netloc = '''', path = ''not-a-url'', query = ''''\<rparr>
      else Inr \<lparr>scheme = ''http'', netloc = ''example.com'', path = ''/v'', query = ''''\<rparr>)"

definition example_urlencode :: "(string \<times> string) list \<Rightarrow> string" where
  "example_urlencode querys = concat (map (\<lambda>(k, v). k @ ''='' @ v @ ''&'') querys)"

definition example_int :: "string \<Rightarrow> error + int" where
  "example_int s =
     (if s \<noteq> [] \<and> list_all is_digit s then Inr (int_of_digits s) else Inl (ValueError s))"

definition plain_env :: "(nat \<Rightarrow> unit request \<Rightarrow> timeout \<Rightarrow> error + response) \<Rightarrow> unit env" where
  "plain_env net =
     \<lparr>get_ident = 1, make_fronted_url = (\<lambda>url. (url, None)), truthy = (\<lambda>_. False),
      json_dumps = (\<lambda>_. ''{}''), empty_dict = (), urlopen = net, decode_utf8 = Inr,
      py_int = example_int, urlsplit = example_urlsplit, parse_qsl = (\<lambda>_. []),
      urlencode = example_urlencode, json_loads = (\<lambda>_. Inl (ValueError ''json'')),
      split_redirector_url = (\<lambda>url. Inr [url]),
      orig_getaddrinfo = (\<lambda>_. Inl (OSError ''gaierror''))\<rparr>"

definition world0 :: "unit world" where
  "world0 = \<lparr>sent = [], last_url = Map.empty, heap = (\<lambda>_. Map.empty), dns_cache = [],
             filesize_cache = [], seq_filesize_cache = []\<rparr>"

text \<open>A server that lets every connection time out.\<close>

definition timeout_net :: "nat \<Rightarrow> unit request \<Rightarrow> timeout \<Rightarrow> error + response" where
  "timeout_net k r t = Inl (URLError SocketTimeout)"

text \<open>A server whose first connection times out and whose later ones answer 404.\<close>

definition flaky_net :: "nat \<Rightarrow> unit request \<Rightarrow> timeout \<Rightarrow> error + response" where
  "flaky_net k r t = (if k = 0 then Inl (URLError SocketTimeout) else Inl (HTTPError 404))"

text \<open>A server that answers every request with the same three bytes.\<close>

definition abc_net :: "nat \<Rightarrow> unit request \<Rightarrow> timeout \<Rightarrow> error + response" where
  "abc_net k r t = Inr \<lparr>info = [(''Content-Length'', ''3'')], body = ''abc'', read_error = None\<rparr>"

text \<open>
  The request of a \<^verbatim>\<open>GET\<close> without extra headers and data for \<open>url\<close>, the range
  (when the offset is not 0) written into the URL as the query parameter
  \<^verbatim>\<open>&range=<offset>-99999999999\<close>.
\<close>

definition ranged_get :: "'j env \<Rightarrow> string \<Rightarrow> int \<Rightarrow> 'j request" where
  "ranged_get env url start_byte_pos =
     (let (front_url, host) =
            make_fronted_url env
              (if start_byte_pos = 0 then url
               else url @ ''&range='' @ str_int start_byte_pos @ ''-99999999999'')
      in \<lparr>full_url = front_url, req_headers = base_headers host Map.empty,
          req_method = Some ''GET'', req_data = None\<rparr>)"

text \<open>The states after one and after two requests for the example URL.\<close>

definition world1 :: "unit world" where
  "world1 = world0\<lparr>last_url := [1 \<mapsto> ''http://example.com/v?x=1''],
                   sent := [(ranged_get (plain_env flaky_net) ''http://example.com/v?x=1'' 0,
                             GLOBAL_DEFAULT_TIMEOUT)]\<rparr>"

definition world2 :: "unit world" where
  "world2 = world1\<lparr>sent := sent world1 @
                     [(ranged_get (plain_env flaky_net) ''http://example.com/v?x=1'' 0,
                       GLOBAL_DEFAULT_TIMEOUT)]\<rparr>"

text \<open>
  The URL that \<^verbatim>\<open>seq_stream\<close> and \<^verbatim>\<open>seq_filesize\<close> request for segment \<open>i\<close> of a URL
  that splits into \<open>split_url\<close>.
\<close>

definition segment_url :: "'j env \<Rightarrow> split_result \<Rightarrow> int \<Rightarrow> string" where
  "segment_url env split_url i =
     base_url split_url @
     urlencode env (set_sq i (dict_of_pairs (parse_qsl env (query split_url))))"

text \<open>
  A segmented payload: segment 0 announces three further segments. The server answers
  a request by the \<^verbatim>\<open>sq\<close> parameter of its URL.
\<close>

definition segment_body :: "int \<Rightarrow> bytes" where
  "segment_body i =
     (if i = 0 then ''Segment-Count: 3'' @ [CHR 0x0D, CHR 0x0A] @ ''head''
      else if i = 1 then ''one''
      else if i = 2 then ''second''
      else ''the third'')"

definition segment_response :: "int \<Rightarrow> response" where
  "segment_response i =
     \<lparr>info = [(''Content-Length'', str_int (int (length (segment_body i))))],
      body = segment_body i, read_error = None\<rparr>"

definition example_split :: split_result where
  "example_split = \<lparr>scheme = ''http'', netloc = ''example.com'', path = ''/v'', query = ''''\<rparr>"

definition segment_net :: "nat \<Rightarrow> unit request \<Rightarrow> timeout \<Rightarrow> error + response" where
  "segment_net k r t =
     (if full_url r = ''http://example.com//v?sq=0&'' then Inr (segment_response 0)
      else if full_url r = ''http://example.com//v?sq=1&'' then Inr (segment_response 1)
      else if full_url r = ''http://example.com//v?sq=2&'' then Inr (segment_response 2)
      else if full_url r = ''http://example.com//v?sq=3&'' then Inr (segment_response 3)
      else Inl (HTTPError 404))"



text \<open>A state in which the caller's dictionary at address 7 already has the content type.\<close>

definition world_ct :: "unit world" where
  "world_ct = world0\<lparr>heap := (\<lambda>_. Map.empty)(7 := [''Content-Type'' \<mapsto> ''application/json''])\<rparr>"

text \<open>
  An environment whose platform resolver answers, and a state in which the last URL of
  the thread is a lookup at the resolver endpoint.
\<close>

definition platform_answer :: addrinfo where
  "platform_answer =
     \<lparr>ai_family = 2, ai_type = 1, ai_proto = 6, ai_canonname = '''',
      ai_sockaddr = Inet ''142.250.74.36'' 443\<rparr>"

definition resolving_env :: "unit env" where
  "resolving_env = (plain_env timeout_net)\<lparr>orig_getaddrinfo := (\<lambda>_. Inr [platform_answer])\<rparr>"

definition world_probe :: "unit world" where
  "world_probe = world0\<lparr>last_url := [1 \<mapsto> ''https://www.google.com/resolve?name=r1.example'']\<rparr>"

text \<open>
  \<open>follows answers x y\<close>: some entry of the answer list has the name \<open>x\<close> and the data
  \<open>y\<close>, so that the working value \<open>x\<close> can be replaced by \<open>y\<close>.
\<close>

definition follows :: "dns_entry list \<Rightarrow> string \<Rightarrow> string \<Rightarrow> bool" where
  "follows answers x y = (\<exists>e\<in>set answers. rr_name e = Some x \<and> rr_data e = Some y)"

text \<open>An answer whose only entry points to itself, and an answer with a chain of two.\<close>

definition cyclic_answer :: dns_json where
  "cyclic_answer =
     \<lparr>Question = Some [\<lparr>rr_name = Some ''a.example.'', rr_data = None\<rparr>],
      Answer = Some [\<lparr>rr_name = Some ''a.example.'', rr_data = Some ''a.example.''\<rparr>]\<rparr>"

definition chain_answer :: dns_json where
  "chain_answer =
     \<lparr>Question = Some [\<lparr>rr_name = Some ''a.example.'', rr_data = None\<rparr>],
      Answer = Some [\<lparr>rr_name = Some ''a.example.'', rr_data = Some ''b.example.''\<rparr>,
                     \<lparr>rr_name = Some ''b.example.'', rr_data = Some ''93.184.216.34''\<rparr>]\<rparr>"

definition chain_rank :: "string \<Rightarrow> nat" where
  "chain_rank s = (if s = ''a.example.'' then 2 else if s = ''b.example.'' then 1 else 0)"

section \<open>Properties\<close>

subsection \<open>The retry loop\<close>

lemma lower_example_url [simp]:
  "lower ''http://example.com/v?x=1'' = ''http://example.com/v?x=1''"
  by (simp add: lower_def lower_char_def)

lemma execute_request_sent:
  "execute_request env url m h d tmo w = (r, w') \<Longrightarrow> r \<noteq> Inl (ValueError ''Invalid URL'') \<Longrightarrow>
   \<exists>q. sent w' = sent w @ [(q, tmo)]"
  by (auto simp: execute_request_def Let_def split: prod.splits if_splits)

lemma attempt_all_timeouts:
  assumes "\<forall>w. fst (execute_request env (url @ range_suffix start) (Some ''GET'') None None tmo w)
               = Inl (URLError SocketTimeout)"
  shows "\<exists>w'. attempt env url tmo n start tries w = (Inl MaxRetriesExceeded, w')
           \<and> length (sent w') = length (sent w) + nat (1 + n - tries)"
  using assms
proof (induction env url tmo n start tries w rule: attempt.induct)
  case (1 env url tmo max_retries start_byte_pos tries w)
  show ?case
  proof (cases "tries \<ge> 1 + max_retries")
    case True
    then show ?thesis
      by (simp add: attempt.simps [of env url tmo max_retries start_byte_pos tries w])
  next
    case False
    obtain r w1 where ex: "execute_request env (url @ range_suffix start_byte_pos)
                           (Some ''GET'') None None tmo w = (r, w1)"
      by (cases "execute_request env (url @ range_suffix start_byte_pos)
                           (Some ''GET'') None None tmo w")
    from "1.prems" have "fst (execute_request env (url @ range_suffix start_byte_pos)
                           (Some ''GET'') None None tmo w) = Inl (URLError SocketTimeout)"
      by blast
    with ex have r: "r = Inl (URLError SocketTimeout)"
      by simp
    from execute_request_sent [OF ex] r have len: "length (sent w1) = Suc (length (sent w))"
      by auto
    from "1.IH" [OF False ex [symmetric] refl] r "1.prems"
    obtain w' where w': "attempt env url tmo max_retries start_byte_pos (tries + 1) w1
                         = (Inl MaxRetriesExceeded, w')"
      and l: "length (sent w') = length (sent w1) + nat (1 + max_retries - (tries + 1))"
      by auto
    from False ex r w' have "attempt env url tmo max_retries start_byte_pos tries w
                         = (Inl MaxRetriesExceeded, w')"
      by (simp add: attempt.simps [of env url tmo max_retries start_byte_pos tries w])
    moreover from False l len
    have "length (sent w') = length (sent w) + nat (1 + max_retries - tries)"
      by (simp add: nat_diff_distrib)
    ultimately show ?thesis by blast
  qed
qed

text \<open>
  Claim C1. If every attempt of \<open>stream url tmo n\<close> fails with a connection timeout
  (a \<^verbatim>\<open>URLError\<close> whose reason is a socket timeout), whatever the state it is made in,
  then the generator yields nothing and raises \<^verbatim>\<open>MaxRetriesExceeded\<close> after exactly
  \<open>n + 1\<close> network calls (none where \<open>n + 1\<close> is negative); with \<open>n = 2\<close> that is
  three calls.
\<close>

theorem stream_retry_exhaustion:
  assumes "\<forall>w. fst (execute_request env (url @ range_suffix start) (Some ''GET'') None None tmo w)
               = Inl (URLError SocketTimeout)"
  shows "\<exists>w'. stream env url tmo n start w = Some ([], Raised MaxRetriesExceeded, w')
           \<and> length (sent w') = length (sent w) + nat (n + 1)
           \<and> (n = 2 \<longrightarrow> length (sent w') = length (sent w) + 3)"
proof -
  from attempt_all_timeouts [OF assms, of n 0 w]
  obtain w' where a: "attempt env url tmo n start 0 w = (Inl MaxRetriesExceeded, w')"
    and l: "length (sent w') = length (sent w) + nat (1 + n)"
    by auto
  have "stream env url tmo n start w = Some ([], Raised MaxRetriesExceeded, w')"
    unfolding stream_def
    by (subst stream_loop.simps) (simp add: a default_range_size_def)
  with l show ?thesis by (auto simp: add.commute)
qed

theorem stream_retry_exhaustion_witness:
  "(\<forall>w. fst (execute_request (plain_env timeout_net)
              (''http://example.com/v?x=1'' @ range_suffix 0) (Some ''GET'') None None
              GLOBAL_DEFAULT_TIMEOUT w) = Inl (URLError SocketTimeout))
   \<and> (\<exists>w'. stream (plain_env timeout_net)
              ''http://example.com/v?x=1'' GLOBAL_DEFAULT_TIMEOUT 2 0 world0
            = Some ([], Raised MaxRetriesExceeded, w')
          \<and> length (sent w') = 3)"
proof -
  have h: "\<forall>w. fst (execute_request (plain_env timeout_net)
              (''http://example.com/v?x=1'' @ range_suffix 0) (Some ''GET'') None None
              GLOBAL_DEFAULT_TIMEOUT w) = Inl (URLError SocketTimeout)"
    by (simp add: execute_request_def plain_env_def timeout_net_def range_suffix_def
          startswith_def)
  from stream_retry_exhaustion [OF h, of 2 world0] h show ?thesis
    by (simp add: world0_def)
qed

subsection \<open>Transient and other errors of an attempt\<close>

lemma passes_iff: "passes e = (e = URLError SocketTimeout \<or> e = IncompleteRead)"
  by (cases e) auto

text \<open>
  Claim C2. Take an attempt of the retry loop (entered with \<open>tries\<close> below
  \<open>1 + max_retries\<close>) whose request fails with the error \<open>e\<close>, in a round of
  \<open>stream\<close> that started in the state \<open>w0\<close>. If \<open>e\<close> is a connection timeout or
  an incomplete read, the error is swallowed and the loop goes on with \<open>tries + 1\<close>.
  Any other error (a \<^verbatim>\<open>URLError\<close> with another reason, an HTTP error status, anything
  else) leaves the loop at once as it is, and the generator ends with it: the round
  yields no chunk and makes no further request.
\<close>

theorem stream_transient_errors:
  assumes req: "execute_request env (url @ range_suffix start) (Some ''GET'') None None tmo w
                = (Inl e, w1)"
    and budget: "tries < 1 + max_retries"
    and round: "attempt env url tmo max_retries start 0 w0
                = attempt env url tmo max_retries start tries w"
    and more: "downloaded < file_size"
  shows "if e = URLError SocketTimeout \<or> e = IncompleteRead
         then attempt env url tmo max_retries start tries w
              = attempt env url tmo max_retries start (tries + 1) w1
         else attempt env url tmo max_retries start tries w = (Inl e, w1)
              \<and> stream_loop env url tmo max_retries start file_size downloaded w0
                = Some ([], Raised e, w1)"
proof (cases "passes e")
  case True
  with req budget have "attempt env url tmo max_retries start tries w
              = attempt env url tmo max_retries start (tries + 1) w1"
    by (simp add: attempt.simps [of env url tmo max_retries start tries w])
  with True show ?thesis by (simp add: passes_iff)
next
  case False
  with req budget have a: "attempt env url tmo max_retries start tries w = (Inl e, w1)"
    by (simp add: attempt.simps [of env url tmo max_retries start tries w])
  with round more
  have "stream_loop env url tmo max_retries start file_size downloaded w0
                = Some ([], Raised e, w1)"
    by (subst stream_loop.simps) simp
  with a False show ?thesis by (simp add: passes_iff)
qed

lemma exec_flaky_0:
  "execute_request (plain_env flaky_net) (''http://example.com/v?x=1'' @ range_suffix 0)
     (Some ''GET'') None None GLOBAL_DEFAULT_TIMEOUT world0
   = (Inl (URLError SocketTimeout), world1)"
  by (simp add: execute_request_def plain_env_def flaky_net_def range_suffix_def
        startswith_def world0_def world1_def Let_def ranged_get_def base_headers_def
        encode_data_def)

lemma exec_flaky_1:
  "execute_request (plain_env flaky_net) (''http://example.com/v?x=1'' @ range_suffix 0)
     (Some ''GET'') None None GLOBAL_DEFAULT_TIMEOUT world1
   = (Inl (HTTPError 404), world2)"
  by (simp add: execute_request_def plain_env_def flaky_net_def range_suffix_def
        startswith_def world0_def world1_def world2_def Let_def ranged_get_def base_headers_def
        encode_data_def)

theorem stream_transient_errors_witness:
  "execute_request (plain_env flaky_net) (''http://example.com/v?x=1'' @ range_suffix 0)
     (Some ''GET'') None None GLOBAL_DEFAULT_TIMEOUT world0
   = (Inl (URLError SocketTimeout), world1)
   \<and> execute_request (plain_env flaky_net) (''http://example.com/v?x=1'' @ range_suffix 0)
     (Some ''GET'') None None GLOBAL_DEFAULT_TIMEOUT world1
   = (Inl (HTTPError 404), world2)
   \<and> attempt (plain_env flaky_net) ''http://example.com/v?x=1'' GLOBAL_DEFAULT_TIMEOUT 1 0 0 world0
     = attempt (plain_env flaky_net) ''http://example.com/v?x=1'' GLOBAL_DEFAULT_TIMEOUT 1 0 1 world1
   \<and> stream (plain_env flaky_net) ''http://example.com/v?x=1'' GLOBAL_DEFAULT_TIMEOUT 1 0 world0
     = Some ([], Raised (HTTPError 404), world2)
   \<and> length (sent world2) = 2"
proof -
  have b0: "(0::int) < 1 + 1" and b1: "(1::int) < 1 + 1" and m: "0 < default_range_size"
    by (simp_all add: default_range_size_def)
  from stream_transient_errors [OF exec_flaky_0 b0 refl m]
  have first: "attempt (plain_env flaky_net) ''http://example.com/v?x=1'' GLOBAL_DEFAULT_TIMEOUT
                 1 0 0 world0
               = attempt (plain_env flaky_net) ''http://example.com/v?x=1'' GLOBAL_DEFAULT_TIMEOUT
                 1 0 1 world1"
    by simp
  from stream_transient_errors [OF exec_flaky_1 b1 first m]
  have "stream (plain_env flaky_net) ''http://example.com/v?x=1'' GLOBAL_DEFAULT_TIMEOUT 1 0 world0
        = Some ([], Raised (HTTPError 404), world2)"
    by (simp add: stream_def)
  with first exec_flaky_0 exec_flaky_1 show ?thesis
    by (simp add: world2_def world1_def world0_def)
qed

subsection \<open>The range of a resumed stream\<close>

lemma exec_get_sent:
  "execute_request env (url @ range_suffix start) (Some ''GET'') None None tmo w = (r, w') \<Longrightarrow>
   sent w' = sent w \<or> sent w' = sent w @ [(ranged_get env url start, tmo)]"
  by (auto simp: execute_request_def ranged_get_def range_suffix_def encode_data_def Let_def
           split: prod.splits if_splits)

lemma attempt_sent:
  "\<exists>k. sent (snd (attempt env url tmo max_retries start tries w))
       = sent w @ replicate k (ranged_get env url start, tmo)"
proof (induction env url tmo max_retries start tries w rule: attempt.induct)
  case (1 env url tmo max_retries start_byte_pos tries w)
  show ?case
  proof (cases "tries \<ge> 1 + max_retries")
    case True
    then have "sent (snd (attempt env url tmo max_retries start_byte_pos tries w))
               = sent w @ replicate 0 (ranged_get env url start_byte_pos, tmo)"
      by (simp add: attempt.simps [of env url tmo max_retries start_byte_pos tries w])
    then show ?thesis by blast
  next
    case False
    obtain r w1 where ex: "execute_request env (url @ range_suffix start_byte_pos)
                           (Some ''GET'') None None tmo w = (r, w1)"
      by (cases "execute_request env (url @ range_suffix start_byte_pos)
                           (Some ''GET'') None None tmo w")
    from exec_get_sent [OF ex]
    obtain j where j: "sent w1 = sent w @ replicate j (ranged_get env url start_byte_pos, tmo)"
      by (metis append_Nil2 replicate_0 replicate_Suc)
    show ?thesis
    proof (cases "isl r \<and> passes (projl r)")
      case True
      from "1.IH" [OF False ex [symmetric] refl True]
      obtain k where "sent (snd (attempt env url tmo max_retries start_byte_pos (tries + 1) w1))
                      = sent w1 @ replicate k (ranged_get env url start_byte_pos, tmo)"
        by blast
      with j True False ex
      have "sent (snd (attempt env url tmo max_retries start_byte_pos tries w))
                      = sent w @ replicate (j + k) (ranged_get env url start_byte_pos, tmo)"
        by (simp add: attempt.simps [of env url tmo max_retries start_byte_pos tries w]
              replicate_add)
      then show ?thesis by blast
    next
      case notpass: False
      with False ex
      have "attempt env url tmo max_retries start_byte_pos tries w = (r, w1)"
        by (auto simp: attempt.simps [of env url tmo max_retries start_byte_pos tries w])
      with j
      have "sent (snd (attempt env url tmo max_retries start_byte_pos tries w))
                      = sent w @ replicate j (ranged_get env url start_byte_pos, tmo)"
        by simp
      then show ?thesis by blast
    qed
  qed
qed

lemma stream_loop_sent:
  assumes ret: "stream_loop env url tmo max_retries start file_size downloaded w = Some res"
  shows "\<exists>k. sent (snd (snd res)) = sent w @ replicate k (ranged_get env url start, tmo)"
proof (rule stream_loop.raw_induct
         [where P = "\<lambda>env url tmo max_retries start file_size downloaded w res.
                 \<exists>k. sent (snd (snd res)) = sent w @ replicate k (ranged_get env url start, tmo)",
          OF _ ret])
  fix f :: "'a env \<Rightarrow> string \<Rightarrow> timeout \<Rightarrow> int \<Rightarrow> int \<Rightarrow> int \<Rightarrow> int \<Rightarrow> 'a world \<Rightarrow>
            (bytes list \<times> finish \<times> 'a world) option"
    and env url tmo max_retries start file_size downloaded w res
  assume IH: "\<And>env url tmo max_retries start file_size downloaded w res.
        f env url tmo max_retries start file_size downloaded w = Some res \<Longrightarrow>
        \<exists>k. sent (snd (snd res)) = sent w @ replicate k (ranged_get env url start, tmo)"
    and eq: "(if downloaded < file_size
      then case attempt env url tmo max_retries start 0 w of
           (Inl e, w') \<Rightarrow> Some ([], Raised e, w')
           | (Inr response, w') \<Rightarrow>
               case discover_size env response start file_size downloaded of
               Inl e \<Rightarrow> Some ([], Raised e, w')
               | Inr (file_size', downloaded') \<Rightarrow>
                   let chunks = read_chunks (body response)
                   in case read_error response of
                      None \<Rightarrow>
                        Option.bind
                         (f env url tmo max_retries start file_size'
                           (downloaded' + int (sum_list (map length chunks))) w')
                         (\<lambda>(rest, fin, w''). Some (chunks @ rest, fin, w''))
                      | Some e \<Rightarrow> Some (chunks, Raised e, w')
      else Some ([], Returned, w)) = Some res"
  obtain r w1 where a: "attempt env url tmo max_retries start 0 w = (r, w1)"
    by (cases "attempt env url tmo max_retries start 0 w")
  from attempt_sent [of env url tmo max_retries start 0 w] a
  obtain j where j: "sent w1 = sent w @ replicate j (ranged_get env url start, tmo)"
    by auto
  have zero: "sent w = sent w @ replicate 0 (ranged_get env url start, tmo)" by simp
  show "\<exists>k. sent (snd (snd res)) = sent w @ replicate k (ranged_get env url start, tmo)"
  proof (cases "downloaded < file_size")
    case False
    with eq have "res = ([], Returned, w)" by simp
    with zero show ?thesis by auto
  next
    case True
    show ?thesis
    proof (cases r)
      case (Inl e)
      with eq True a have "snd (snd res) = w1" by auto
      with j show ?thesis by blast
    next
      case (Inr response)
      show ?thesis
      proof (cases "discover_size env response start file_size downloaded")
        case (Inl e)
        with eq True a Inr have "snd (snd res) = w1" by auto
        with j show ?thesis by blast
      next
        case sz: (Inr p)
        obtain fs dl where p: "p = (fs, dl)" by (cases p)
        show ?thesis
        proof (cases "read_error response")
          case (Some e)
          with eq True a Inr sz p have "snd (snd res) = w1" by (auto simp: Let_def)
          with j show ?thesis by blast
        next
          case None
          with eq True a Inr sz p
          obtain res' where r': "f env url tmo max_retries start fs
                 (dl + int (sum_list (map length (read_chunks (body response))))) w1 = Some res'"
            and s: "snd (snd res) = snd (snd res')"
            by (auto simp: Let_def bind_eq_Some_conv)
          from IH [OF r'] obtain k where
            "sent (snd (snd res')) = sent w1 @ replicate k (ranged_get env url start, tmo)"
            by blast
          with j s have "sent (snd (snd res))
               = sent w @ replicate (j + k) (ranged_get env url start, tmo)"
            by (simp add: replicate_add)
          then show ?thesis by blast
        qed
      qed
    qed
  qed
qed

lemma base_headers_dom:
  "dom (base_headers host Map.empty) \<subseteq> {''User-Agent'', ''accept-language'', ''Host''}"
  by (auto simp: base_headers_def Let_def split: option.splits if_splits)

lemma str_int_5: "str_int 5 = ''5''"
  by code_simp

lemma read_chunks_abc: "read_chunks ''abc'' = [''abc'']"
  by (simp add: read_chunks.simps)

lemma stream_abc_run:
  "stream (plain_env abc_net) ''http://example.com/v?x=1'' GLOBAL_DEFAULT_TIMEOUT 0 5 world0
   = Some ([''abc''], Returned,
       world0\<lparr>sent := [(\<lparr>full_url = ''http://example.com/v?x=1&range=5-99999999999'',
                         req_headers = [''User-Agent'' \<mapsto> ''Mozilla/5.0'',
                                        ''accept-language'' \<mapsto> ''en-US,en''],
                         req_method = Some ''GET'', req_data = None\<rparr>,
                       GLOBAL_DEFAULT_TIMEOUT)],
              last_url := [1 \<mapsto> ''http://example.com/v?x=1&range=5-99999999999'']\<rparr>)"
  unfolding stream_def
  apply (subst stream_loop.simps)
  apply (subst stream_loop.simps)
  apply (simp add: default_range_size_def attempt.simps execute_request_def plain_env_def
      abc_net_def range_suffix_def str_int_5 startswith_def lower_def lower_char_def world0_def
      encode_data_def base_headers_def discover_size_def msg_get_def example_int_def
      is_digit_def int_of_digits_def read_chunks_abc)
  done

text \<open>
  Claim C3, as stated: a stream resumed at offset 5 makes one request. It carries the
  two base headers and no range header; the range is in its URL.
\<close>

theorem stream_range_header_counterexample:
  "stream (plain_env abc_net) ''http://example.com/v?x=1'' GLOBAL_DEFAULT_TIMEOUT 0 5 world0
   = Some ([''abc''], Returned,
       world0\<lparr>sent := [(\<lparr>full_url = ''http://example.com/v?x=1&range=5-99999999999'',
                         req_headers = [''User-Agent'' \<mapsto> ''Mozilla/5.0'',
                                        ''accept-language'' \<mapsto> ''en-US,en''],
                         req_method = Some ''GET'', req_data = None\<rparr>,
                       GLOBAL_DEFAULT_TIMEOUT)],
              last_url := [1 \<mapsto> ''http://example.com/v?x=1&range=5-99999999999'']\<rparr>)
   \<and> [''User-Agent'' \<mapsto> ''Mozilla/5.0'', ''accept-language'' \<mapsto> ''en-US,en''] ''Range''
     = None
   \<and> [''User-Agent'' \<mapsto> ''Mozilla/5.0'', ''accept-language'' \<mapsto> ''en-US,en''] ''range''
     = None"
  using stream_abc_run by simp

text \<open>
  Claim C3, amended. Every request of \<open>stream\<close> (of its retry loop, and of a whole run
  that ends) is the same \<^verbatim>\<open>GET\<close> request with the caller's timeout: the one built for
  the URL with \<^verbatim>\<open>&range=<startByteOffset>-99999999999\<close> appended when the offset is
  not 0, and for the unmodified URL when it is 0. Its headers are the base headers
  (user agent, language, the fronting host): there is no range header.
\<close>

theorem stream_range_in_url:
  "(\<exists>k. sent (snd (attempt env url tmo max_retries start tries w))
         = sent w @ replicate k (ranged_get env url start, tmo))
   \<and> (\<forall>res. stream env url tmo max_retries start w = Some res \<longrightarrow>
          (\<exists>k. sent (snd (snd res)) = sent w @ replicate k (ranged_get env url start, tmo)))
   \<and> dom (req_headers (ranged_get env url start))
       \<subseteq> {''User-Agent'', ''accept-language'', ''Host''}
   \<and> full_url (ranged_get env url start)
       = fst (make_fronted_url env
                (if start = 0 then url
                 else url @ ''&range='' @ str_int start @ ''-99999999999''))
   \<and> req_method (ranged_get env url start) = Some ''GET''"
proof -
  have "dom (req_headers (ranged_get env url start))
       \<subseteq> {''User-Agent'', ''accept-language'', ''Host''}"
    using base_headers_dom by (simp add: ranged_get_def Let_def split: prod.splits)
  moreover have "full_url (ranged_get env url start)
       = fst (make_fronted_url env
                (if start = 0 then url
                 else url @ ''&range='' @ str_int start @ ''-99999999999''))"
    by (simp add: ranged_get_def Let_def split: prod.splits)
  moreover have "req_method (ranged_get env url start) = Some ''GET''"
    by (simp add: ranged_get_def Let_def split: prod.splits)
  ultimately show ?thesis
    using attempt_sent [of env url tmo max_retries start tries w] stream_loop_sent
    unfolding stream_def by blast
qed

theorem stream_range_in_url_witness:
  "stream (plain_env abc_net) ''http://example.com/v?x=1'' GLOBAL_DEFAULT_TIMEOUT 0 5 world0
     \<noteq> None
   \<and> (\<exists>k. sent (snd (snd (the (stream (plain_env abc_net) ''http://example.com/v?x=1''
                                   GLOBAL_DEFAULT_TIMEOUT 0 5 world0))))
          = sent world0 @ replicate k
              (ranged_get (plain_env abc_net) ''http://example.com/v?x=1'' 5,
               GLOBAL_DEFAULT_TIMEOUT))
   \<and> full_url (ranged_get (plain_env abc_net) ''http://example.com/v?x=1'' 5)
     = ''http://example.com/v?x=1&range=5-99999999999''"
proof -
  have run: "stream (plain_env abc_net) ''http://example.com/v?x=1'' GLOBAL_DEFAULT_TIMEOUT 0 5
               world0 \<noteq> None"
    using stream_abc_run by simp
  from stream_range_in_url [of "plain_env abc_net" "''http://example.com/v?x=1''"
         GLOBAL_DEFAULT_TIMEOUT 0 5 0 world0] run
  show ?thesis
    by (auto simp: plain_env_def str_int_5)
qed

subsection \<open>Reading one response, and the segments in sequence\<close>

lemma concat_read_chunks: "concat (read_chunks b) = b"
proof (induction b rule: read_chunks.induct)
  case (1 b)
  show ?case
  proof (cases "b = []")
    case True
    then show ?thesis by (simp add: read_chunks.simps)
  next
    case False
    with "1.IH" have "concat (read_chunks (drop 32768 b)) = drop 32768 b" by simp
    with False show ?thesis by (subst read_chunks.simps) simp
  qed
qed

lemma length_read_chunks: "sum_list (map length (read_chunks b)) = length b"
proof -
  have "length (concat (read_chunks b)) = sum_list (map length (read_chunks b))"
    by (simp add: length_concat)
  then show ?thesis by (simp add: concat_read_chunks)
qed

lemma exec_get_ok:
  assumes "fst (execute_request env url (Some ''GET'') None None tmo w) = Inr resp"
  shows "execute_request env url (Some ''GET'') None None tmo w
         = (Inr resp, w\<lparr>last_url := (last_url w)(get_ident env \<mapsto> url),
                         sent := sent w @ [(ranged_get env url 0, tmo)]\<rparr>)"
  using assms
  by (auto simp: execute_request_def ranged_get_def encode_data_def Let_def
           split: prod.splits if_splits)

lemma stream_one_response:
  assumes ex: "fst (execute_request env url (Some ''GET'') None None tmo w) = Inr resp"
    and mr: "0 \<le> max_retries"
    and cl: "msg_get (info resp) ''Content-Length'' = Some v"
    and pi: "py_int env v = Inr (int (length (body resp)))"
    and re: "read_error resp = None"
  shows "stream env url tmo max_retries 0 w
         = Some (read_chunks (body resp), Returned,
                 w\<lparr>last_url := (last_url w)(get_ident env \<mapsto> url),
                   sent := sent w @ [(ranged_get env url 0, tmo)]\<rparr>)"
proof -
  let ?w1 = "w\<lparr>last_url := (last_url w)(get_ident env \<mapsto> url),
                   sent := sent w @ [(ranged_get env url 0, tmo)]\<rparr>"
  from exec_get_ok [OF ex] mr
  have a: "attempt env url tmo max_retries 0 0 w = (Inr resp, ?w1)"
    by (simp add: attempt.simps [of env url tmo max_retries 0 0 w] range_suffix_def)
  have d: "discover_size env resp 0 default_range_size 0 = Inr (int (length (body resp)), 0)"
    by (simp add: discover_size_def cl pi)
  have stop: "stream_loop env url tmo max_retries 0 (int (length (body resp)))
                (int (length (body resp))) ?w1 = Some ([], Returned, ?w1)"
    by (subst stream_loop.simps) simp
  have pos: "0 < default_range_size"
    by (simp add: default_range_size_def)
  show ?thesis
    unfolding stream_def
    by (subst stream_loop.simps) (simp add: a d re stop length_read_chunks pos)
qed


lemma dict_set_twice: "dict_set k v (dict_set k v' d) = dict_set k v d"
  by (induction d) auto

lemma set_sq_twice: "set_sq i (set_sq j querys) = set_sq i querys"
  by (simp add: set_sq_def dict_set_twice)

lemma seq_stream_loop_segments:
  assumes srv: "\<forall>k\<in>{0..N}. \<forall>w. fst (execute_request env (segment_url env sp k) (Some ''GET'')
                                      None None tmo w) = Inr (resp k)"
    and ok: "\<forall>k\<in>{0..N}. read_error (resp k) = None \<and>
               (\<exists>v. msg_get (info (resp k)) ''Content-Length'' = Some v \<and>
                    py_int env v = Inr (int (length (body (resp k)))))"
    and mr: "0 \<le> max_retries"
  shows "0 \<le> i \<Longrightarrow> querys = set_sq j (dict_of_pairs (parse_qsl env (query sp))) \<Longrightarrow>
         \<exists>w'. seq_stream_loop env tmo max_retries (base_url sp) querys N i w
               = Some (concat (map (\<lambda>k. read_chunks (body (resp k))) [i..N]), Returned, w')
            \<and> sent w' = sent w @ map (\<lambda>k. (ranged_get env (segment_url env sp k) 0, tmo)) [i..N]"
proof (induction "nat (N + 1 - i)" arbitrary: i j querys w)
  case 0
  then have "\<not> i \<le> N" by simp
  then show ?case
    by (subst seq_stream_loop.simps) simp
next
  case (Suc n)
  then have iN: "i \<le> N" and i0: "0 \<le> i" by simp_all
  let ?url = "segment_url env sp i"
  let ?w1 = "w\<lparr>last_url := (last_url w)(get_ident env \<mapsto> ?url),
                sent := sent w @ [(ranged_get env ?url 0, tmo)]\<rparr>"
  have u: "base_url sp @ urlencode env (set_sq i querys) = ?url"
    using Suc.prems by (simp add: segment_url_def set_sq_twice)
  from srv iN i0 have ex: "fst (execute_request env ?url (Some ''GET'') None None tmo w)
                           = Inr (resp i)"
    by simp
  from ok iN i0 obtain v where re: "read_error (resp i) = None"
    and cl: "msg_get (info (resp i)) ''Content-Length'' = Some v"
    and pi: "py_int env v = Inr (int (length (body (resp i))))"
    by (metis atLeastAtMost_iff)
  have st: "stream env ?url tmo max_retries 0 w
            = Some (read_chunks (body (resp i)), Returned, ?w1)"
    by (rule stream_one_response [OF ex mr cl pi re])
  have q': "set_sq i querys = set_sq i (dict_of_pairs (parse_qsl env (query sp)))"
    using Suc.prems by (simp add: set_sq_twice)
  from Suc.hyps(2) have n: "n = nat (N + 1 - (i + 1))" by simp
  from Suc.hyps(1) [OF n _ q', of ?w1] i0
  obtain w' where rest: "seq_stream_loop env tmo max_retries (base_url sp) (set_sq i querys) N
                           (i + 1) ?w1
               = Some (concat (map (\<lambda>k. read_chunks (body (resp k))) [i + 1..N]), Returned, w')"
    and s: "sent w' = sent ?w1 @ map (\<lambda>k. (ranged_get env (segment_url env sp k) 0, tmo)) [i + 1..N]"
    by auto
  have up: "[i..N] = i # [i + 1..N]"
    using iN by (simp add: upto_rec1)
  have "seq_stream_loop env tmo max_retries (base_url sp) querys N i w
        = Some (concat (map (\<lambda>k. read_chunks (body (resp k))) [i..N]), Returned, w')"
    by (subst seq_stream_loop.simps) (simp add: iN u st rest up Let_def)
  moreover have "sent w' = sent w @ map (\<lambda>k. (ranged_get env (segment_url env sp k) 0, tmo)) [i..N]"
    using s by (simp add: up)
  ultimately show ?case by blast
qed


lemma segment_count_search_digits:
  "segment_count_search line = Some ds \<Longrightarrow> list_all is_digit ds"
proof (induction line)
  case Nil
  then show ?case by simp
next
  case (Cons c cs)
  show ?case
  proof (cases "startswith (c # cs) ''Segment-Count: '' \<and>
                takeWhile is_digit (drop 15 (c # cs)) \<noteq> []")
    case True
    with Cons.prems have "ds = takeWhile is_digit (drop 15 (c # cs))"
      by (simp add: Let_def)
    then show ?thesis
      by (simp add: list_all_iff) (meson set_takeWhileD)
  next
    case False
    with Cons.prems have "segment_count_search cs = Some ds"
      by (auto simp: Let_def)
    then show ?thesis by (rule Cons.IH)
  qed
qed

lemma foldl_digits_nonneg:
  "list_all is_digit ds \<Longrightarrow> 0 \<le> a \<Longrightarrow>
   0 \<le> foldl (\<lambda>n c. 10 * n + (int (of_char c) - 48)) a ds"
  by (induction ds arbitrary: a) (auto simp: is_digit_def Let_def)

lemma int_of_digits_nonneg: "list_all is_digit ds \<Longrightarrow> 0 \<le> int_of_digits ds"
  by (simp add: int_of_digits_def foldl_digits_nonneg)

lemma fold_segment_count_nonneg:
  "fold (\<lambda>line segment_count.
             case segment_count_search line of
               None \<Rightarrow> segment_count
             | Some digits \<Rightarrow> Some (int_of_digits digits)) ls acc = Some n \<Longrightarrow>
   (\<forall>m. acc = Some m \<longrightarrow> 0 \<le> m) \<Longrightarrow> 0 \<le> n"
proof (induction ls arbitrary: acc)
  case Nil
  then show ?case by simp
next
  case (Cons l ls)
  show ?case
  proof (cases "segment_count_search l")
    case None
    with Cons show ?thesis by simp
  next
    case (Some ds)
    with Cons.prems(1) have "fold (\<lambda>line segment_count.
             case segment_count_search line of
               None \<Rightarrow> segment_count
             | Some digits \<Rightarrow> Some (int_of_digits digits)) ls (Some (int_of_digits ds)) = Some n"
      by simp
    moreover from Some have "0 \<le> int_of_digits ds"
      by (simp add: segment_count_search_digits int_of_digits_nonneg)
    ultimately show ?thesis by (intro Cons.IH) auto
  qed
qed

lemma find_segment_count_nonneg: "find_segment_count b = Some n \<Longrightarrow> 0 \<le> n"
  using fold_segment_count_nonneg [of "split_crlf b" None n]
  by (simp add: find_segment_count_def)

lemma fold_no_marker:
  "\<forall>l\<in>set ls. segment_count_search l = None \<Longrightarrow>
   fold (\<lambda>line segment_count.
           case segment_count_search line of
             None \<Rightarrow> segment_count
           | Some digits \<Rightarrow> Some (int_of_digits digits)) ls acc = acc"
  by (induction ls arbitrary: acc) simp_all

text \<open>
  What \<open>find_segment_count\<close> finds: the count of the last line that has a marker, and
  nothing where no line has one.
\<close>

lemma find_segment_count_last_marker:
  assumes "split_crlf b = ls1 @ l # ls2"
    and "segment_count_search l = Some ds"
    and "\<forall>l'\<in>set ls2. segment_count_search l' = None"
  shows "find_segment_count b = Some (int_of_digits ds)"
  using assms by (simp add: find_segment_count_def fold_no_marker)

lemma find_segment_count_no_marker:
  assumes "\<forall>l\<in>set (split_crlf b). segment_count_search l = None"
  shows "find_segment_count b = None"
  using assms by (simp add: find_segment_count_def fold_no_marker)

lemma segment_count_search_marker:
  assumes "ds \<noteq> []" and "list_all is_digit ds" and "rest = [] \<or> \<not> is_digit (hd rest)"
  shows "segment_count_search (''Segment-Count: '' @ ds @ rest) = Some ds"
proof -
  have "takeWhile is_digit (ds @ rest) = ds"
    using assms(2,3) by (cases rest) (auto simp: list_all_iff takeWhile_append2 takeWhile_eq_all_conv)
  with assms(1) show ?thesis
    by (simp add: startswith_def Let_def)
qed

lemma concat_concat_read_chunks:
  "concat (concat (map (\<lambda>k. read_chunks (f k)) ks)) = concat (map f ks)"
  by (induction ks) (simp_all add: concat_read_chunks)

text \<open>
  Claim C4. Take a URL that splits into \<open>sp\<close> and a server that answers the request
  for every segment \<open>k\<close> from 0 to \<open>N\<close> with the response \<open>resp k\<close>, whose
  \<^verbatim>\<open>Content-Length\<close> is the length of its body, where \<open>N\<close> is the count that the
  \<^verbatim>\<open>Segment-Count\<close> line of segment 0 announces (the last such line, if there are
  several). Then \<open>seq_stream\<close> returns normally,
  having yielded the chunks of segment 0, then those of segments 1 to \<open>N\<close> in ascending
  order; what it yielded, concatenated, is the concatenation of the bodies 0 to \<open>N\<close>;
  and it has made one request per segment, in this order.
\<close>

theorem seq_stream_segments:
  assumes split: "urlsplit env url = Inr sp"
    and srv: "\<forall>k\<in>{0..N}. \<forall>w. fst (execute_request env (segment_url env sp k) (Some ''GET'')
                                      None None tmo w) = Inr (resp k)"
    and ok: "\<forall>k\<in>{0..N}. read_error (resp k) = None \<and>
               (\<exists>v. msg_get (info (resp k)) ''Content-Length'' = Some v \<and>
                    py_int env v = Inr (int (length (body (resp k)))))"
    and mr: "0 \<le> max_retries"
    and count: "find_segment_count (body (resp 0)) = Some N"
  shows "\<exists>w'. seq_stream env url tmo max_retries w
               = Some (concat (map (\<lambda>k. read_chunks (body (resp k))) [0..N]), Returned, w')
           \<and> concat (concat (map (\<lambda>k. read_chunks (body (resp k))) [0..N]))
               = concat (map (\<lambda>k. body (resp k)) [0..N])
           \<and> sent w' = sent w @ map (\<lambda>k. (ranged_get env (segment_url env sp k) 0, tmo)) [0..N]"
proof -
  from count have N: "0 \<le> N"
    by (rule find_segment_count_nonneg)
  let ?q = "dict_of_pairs (parse_qsl env (query sp))"
  let ?url = "segment_url env sp 0"
  let ?w1 = "w\<lparr>last_url := (last_url w)(get_ident env \<mapsto> ?url),
                sent := sent w @ [(ranged_get env ?url 0, tmo)]\<rparr>"
  from srv N have ex: "fst (execute_request env ?url (Some ''GET'') None None tmo w)
                       = Inr (resp 0)"
    by simp
  from ok N obtain v where re: "read_error (resp 0) = None"
    and cl: "msg_get (info (resp 0)) ''Content-Length'' = Some v"
    and pi: "py_int env v = Inr (int (length (body (resp 0))))"
    by (metis atLeastAtMost_iff order_refl)
  have st: "stream env ?url tmo max_retries 0 w
            = Some (read_chunks (body (resp 0)), Returned, ?w1)"
    by (rule stream_one_response [OF ex mr cl pi re])
  from seq_stream_loop_segments [OF srv ok mr, of 1 "set_sq 0 ?q" 0 ?w1]
  obtain w' where rest: "seq_stream_loop env tmo max_retries (base_url sp) (set_sq 0 ?q) N 1 ?w1
               = Some (concat (map (\<lambda>k. read_chunks (body (resp k))) [1..N]), Returned, w')"
    and s: "sent w' = sent ?w1 @ map (\<lambda>k. (ranged_get env (segment_url env sp k) 0, tmo)) [1..N]"
    by auto
  have up: "[0..N] = 0 # [1..N]"
    using N by (simp add: upto_rec1)
  have u: "base_url sp @ urlencode env (set_sq 0 ?q) = ?url"
    by (simp add: segment_url_def)
  have "seq_stream env url tmo max_retries w
        = Some (concat (map (\<lambda>k. read_chunks (body (resp k))) [0..N]), Returned, w')"
    unfolding seq_stream_def
    by (simp add: split Let_def u st concat_read_chunks count rest up)
  moreover have "sent w' = sent w @ map (\<lambda>k. (ranged_get env (segment_url env sp k) 0, tmo)) [0..N]"
    using s by (simp add: up)
  ultimately show ?thesis
    using concat_concat_read_chunks [of "\<lambda>k. body (resp k)" "[0..N]"] by blast
qed

lemma segment_url_example:
  "segment_url (plain_env net) example_split 0 = ''http://example.com//v?sq=0&''"
  "segment_url (plain_env net) example_split 1 = ''http://example.com//v?sq=1&''"
  "segment_url (plain_env net) example_split 2 = ''http://example.com//v?sq=2&''"
  "segment_url (plain_env net) example_split 3 = ''http://example.com//v?sq=3&''"
  by code_simp+

lemma find_segment_count_example: "find_segment_count (segment_body 0) = Some 3"
  by code_simp

lemma example_int_length:
  "example_int (str_int (int (length (segment_body 0)))) = Inr (int (length (segment_body 0)))"
  "example_int (str_int (int (length (segment_body 1)))) = Inr (int (length (segment_body 1)))"
  "example_int (str_int (int (length (segment_body 2)))) = Inr (int (length (segment_body 2)))"
  "example_int (str_int (int (length (segment_body 3)))) = Inr (int (length (segment_body 3)))"
  by code_simp+

lemma upto_0_3: "k \<in> {0..3::int} \<Longrightarrow> k = 0 \<or> k = 1 \<or> k = 2 \<or> k = 3"
  by auto


lemma plain_env_sel:
  "make_fronted_url (plain_env net) = (\<lambda>url. (url, None))"
  "urlopen (plain_env net) = net"
  "get_ident (plain_env net) = 1"
  "py_int (plain_env net) = example_int"
  "urlsplit (plain_env net) = example_urlsplit"
  by (simp_all add: plain_env_def)

lemma lower_segment_urls:
  "startswith (lower ''http://example.com//v?sq=0&'') ''http''"
  "startswith (lower ''http://example.com//v?sq=1&'') ''http''"
  "startswith (lower ''http://example.com//v?sq=2&'') ''http''"
  "startswith (lower ''http://example.com//v?sq=3&'') ''http''"
  by code_simp+

lemma segment_net_serves:
  assumes "k \<in> {0..3}"
  shows "fst (execute_request (plain_env segment_net) (segment_url (plain_env segment_net)
               example_split k) (Some ''GET'') None None tmo w) = Inr (segment_response k)"
proof -
  have e: "make_fronted_url (plain_env segment_net) = (\<lambda>url. (url, None))"
    "urlopen (plain_env segment_net) = segment_net"
    by (simp_all add: plain_env_def)
  from assms have "k = 0 \<or> k = 1 \<or> k = 2 \<or> k = 3" by auto
  then show ?thesis
    by (auto simp: execute_request_def segment_url_example lower_segment_urls e segment_net_def
          Let_def)
qed

lemma segment_response_ok:
  assumes "k \<in> {0..3}"
  shows "read_error (segment_response k) = None \<and>
         (\<exists>v. msg_get (info (segment_response k)) ''Content-Length'' = Some v \<and>
              py_int (plain_env segment_net) v = Inr (int (length (body (segment_response k)))))"
proof -
  from assms have "k = 0 \<or> k = 1 \<or> k = 2 \<or> k = 3" by auto
  then show ?thesis
    by (auto simp: segment_response_def msg_get_def plain_env_def example_int_length)
qed

lemma read_chunks_segments:
  "map (\<lambda>k. read_chunks (body (segment_response k))) [0..3]
   = [[segment_body 0], [''one''], [''second''], [''the third'']]"
  by (simp add: upto.simps segment_response_def read_chunks.simps segment_body_def)

theorem seq_stream_segments_witness:
  "urlsplit (plain_env segment_net) ''http://example.com/v'' = Inr example_split
   \<and> find_segment_count (body (segment_response 0)) = Some 3
   \<and> (\<exists>w'. seq_stream (plain_env segment_net) ''http://example.com/v'' GLOBAL_DEFAULT_TIMEOUT 0
              world0
            = Some ([segment_body 0, ''one'', ''second'', ''the third''], Returned, w')
          \<and> map (\<lambda>q. full_url (fst q)) (sent w')
            = [''http://example.com//v?sq=0&'', ''http://example.com//v?sq=1&'',
               ''http://example.com//v?sq=2&'', ''http://example.com//v?sq=3&''])"
proof -
  have split: "urlsplit (plain_env segment_net) ''http://example.com/v'' = Inr example_split"
    by (simp add: plain_env_def example_urlsplit_def example_split_def)
  have count: "find_segment_count (body (segment_response 0)) = Some 3"
    by (simp add: segment_response_def find_segment_count_example)
  have srv: "\<forall>k\<in>{0..3}. \<forall>w. fst (execute_request (plain_env segment_net)
               (segment_url (plain_env segment_net) example_split k) (Some ''GET'') None None
               GLOBAL_DEFAULT_TIMEOUT w) = Inr (segment_response k)"
    using segment_net_serves by blast
  have ok: "\<forall>k\<in>{0..3}. read_error (segment_response k) = None \<and>
         (\<exists>v. msg_get (info (segment_response k)) ''Content-Length'' = Some v \<and>
              py_int (plain_env segment_net) v = Inr (int (length (body (segment_response k)))))"
    using segment_response_ok by blast
  have urls: "map (\<lambda>k. full_url (ranged_get (plain_env segment_net)
                 (segment_url (plain_env segment_net) example_split k) 0)) [0..3]
              = [''http://example.com//v?sq=0&'', ''http://example.com//v?sq=1&'',
                 ''http://example.com//v?sq=2&'', ''http://example.com//v?sq=3&'']"
    by (simp add: upto.simps ranged_get_def segment_url_example plain_env_sel)
  from seq_stream_segments [OF split srv ok _ count, of 0 world0]
  obtain w' where run: "seq_stream (plain_env segment_net) ''http://example.com/v''
               GLOBAL_DEFAULT_TIMEOUT 0 world0
             = Some (concat (map (\<lambda>k. read_chunks (body (segment_response k))) [0..3]),
                     Returned, w')"
    and s: "sent w' = sent world0 @ map (\<lambda>k. (ranged_get (plain_env segment_net)
              (segment_url (plain_env segment_net) example_split k) 0, GLOBAL_DEFAULT_TIMEOUT))
              [0..3]"
    by auto
  from s have "map (\<lambda>q. full_url (fst q)) (sent w')
            = map (\<lambda>k. full_url (ranged_get (plain_env segment_net)
                 (segment_url (plain_env segment_net) example_split k) 0)) [0..3]"
    by (simp add: world0_def comp_def)
  with run split count urls show ?thesis
    by (auto simp: read_chunks_segments)
qed

subsection \<open>A first segment without a segment count\<close>

lemma seq_stream_no_marker:
  assumes split: "urlsplit env url = Inr sp"
    and ex: "fst (execute_request env (segment_url env sp 0) (Some ''GET'') None None tmo w)
             = Inr resp"
    and mr: "0 \<le> max_retries"
    and cl: "msg_get (info resp) ''Content-Length'' = Some v"
    and pi: "py_int env v = Inr (int (length (body resp)))"
    and re: "read_error resp = None"
    and none: "find_segment_count (body resp) = None"
  shows "seq_stream env url tmo max_retries w
         = Some (read_chunks (body resp), Raised (UnboundLocalError ''segment_count''),
                 w\<lparr>last_url := (last_url w)(get_ident env \<mapsto> segment_url env sp 0),
                   sent := sent w @ [(ranged_get env (segment_url env sp 0) 0, tmo)]\<rparr>)"
proof -
  have u: "base_url sp @ urlencode env (set_sq 0 (dict_of_pairs (parse_qsl env (query sp))))
           = segment_url env sp 0"
    by (simp add: segment_url_def)
  show ?thesis
    unfolding seq_stream_def
    by (simp add: split Let_def u stream_one_response [OF ex mr cl pi re] concat_read_chunks none)
qed

lemma abc_net_serves:
  "fst (execute_request (plain_env abc_net) (segment_url (plain_env abc_net) example_split 0)
          (Some ''GET'') None None tmo w)
   = Inr \<lparr>info = [(''Content-Length'', ''3'')], body = ''abc'', read_error = None\<rparr>"
  by (simp add: execute_request_def segment_url_example lower_segment_urls plain_env_sel
        abc_net_def)

lemma find_segment_count_abc: "find_segment_count ''abc'' = None"
  by code_simp

lemma example_int_3: "example_int ''3'' = Inr 3"
  by code_simp

text \<open>
  Claim C5 does not hold of the code. The first segment \<^verbatim>\<open>abc\<close> has no segment count:
  \<open>seq_stream\<close> yields it and then raises \<^verbatim>\<open>UnboundLocalError\<close>, since the local
  variable \<^verbatim>\<open>segment_count\<close> that the loop condition reads was never assigned.
\<close>

theorem seq_stream_no_marker_raises:
  "seq_stream (plain_env abc_net) ''http://example.com/v'' GLOBAL_DEFAULT_TIMEOUT 0 world0
   = Some ([''abc''], Raised (UnboundLocalError ''segment_count''),
       world0\<lparr>last_url := [1 \<mapsto> ''http://example.com//v?sq=0&''],
              sent := [(ranged_get (plain_env abc_net) ''http://example.com//v?sq=0&'' 0,
                        GLOBAL_DEFAULT_TIMEOUT)]\<rparr>)"
proof -
  have split: "urlsplit (plain_env abc_net) ''http://example.com/v'' = Inr example_split"
    by (simp add: plain_env_sel example_urlsplit_def example_split_def)
  from seq_stream_no_marker [OF split abc_net_serves, of 0 "''3''" GLOBAL_DEFAULT_TIMEOUT world0]
  show ?thesis
    by (simp add: msg_get_def plain_env_sel example_int_3 find_segment_count_abc
          read_chunks_abc segment_url_example world0_def)
qed

subsection \<open>The total size of a segmented payload\<close>












subsection \<open>URLs that are not HTTP\<close>








subsection \<open>The headers dictionary of post\<close>

lemma execute_request_heap: "heap (snd (execute_request env url m h d tmo w)) = heap w"
  by (simp add: execute_request_def Let_def split: prod.splits)

lemma post_heap:
  "heap (snd (post env url (Some a) data tmo w))
   = (heap w)(a := (heap w a)(''Content-Type'' \<mapsto> ''application/json''))"
proof -
  let ?w1 = "w\<lparr>heap := (heap w)(a := (heap w a)(''Content-Type'' \<mapsto> ''application/json''))\<rparr>"
  have "snd (post env url (Some a) data tmo w)
        = snd (execute_request env url None
                 (Some ((heap w a)(''Content-Type'' \<mapsto> ''application/json'')))
                 (case data of None \<Rightarrow> Some (Object (empty_dict env)) | Some d \<Rightarrow> Some d) tmo ?w1)"
    by (simp add: post_def Let_def split: prod.splits)
  then show ?thesis by (simp add: execute_request_heap)
qed

text \<open>
  Claim C10, as stated: the caller's dictionary is never left unchanged. Here it
  already holds the entry, and after the call it is what it was.
\<close>

theorem post_same_entry_counterexample:
  "heap world_ct 7 = [''Content-Type'' \<mapsto> ''application/json'']
   \<and> heap (snd (post (plain_env abc_net) ''http://example.com/v?x=1'' (Some 7) None
                  GLOBAL_DEFAULT_TIMEOUT world_ct)) 7
     = heap world_ct 7"
  by (simp add: post_heap world_ct_def world0_def)

text \<open>
  Claim C10, amended. \<open>post\<close> writes to the caller's own dictionary (the object at
  the address passed as \<open>extra_headers\<close>), whatever becomes of the request: after the
  call that object holds its old entries and \<^verbatim>\<open>'Content-Type': 'application/json'\<close>, and
  no other object has changed. The object is left as it was exactly when it held this
  entry before.
\<close>

theorem post_updates_caller_headers:
  "heap (snd (post env url (Some a) data tmo w))
   = (heap w)(a := (heap w a)(''Content-Type'' \<mapsto> ''application/json''))
   \<and> heap (snd (post env url (Some a) data tmo w)) a ''Content-Type'' = Some ''application/json''
   \<and> (heap (snd (post env url (Some a) data tmo w)) a = heap w a)
     = (heap w a ''Content-Type'' = Some ''application/json'')"
  by (simp add: post_heap fun_upd_idem_iff)

subsection \<open>The address override at a resolver probe\<close>

lemma startswith_append: "startswith s sub \<Longrightarrow> startswith (s @ t) sub"
proof -
  assume a: "startswith s sub"
  then have "length (take (length sub) s) = length sub"
    by (simp add: startswith_def)
  then have "length sub \<le> length s"
    by simp
  with a show ?thesis by (simp add: startswith_def)
qed

lemma contains_empty: "contains [] s"
  by (cases s) (simp_all add: startswith_def)

lemma contains_append: "contains sub s \<Longrightarrow> contains sub (s @ t)"
proof (induction s)
  case Nil
  then show ?case by (simp add: contains_empty)
next
  case (Cons c cs)
  then show ?case using startswith_append [of "c # cs" sub t] by auto
qed

lemma contains_prepend: "contains sub s \<Longrightarrow> contains sub (p @ s)"
  by (induction p) auto

lemma contains_nonempty: "contains ''/resolve'' s \<Longrightarrow> s \<noteq> []"
  by auto

text \<open>
  Claim C8, as stated: at a resolver probe the override returns the fixed address, with
  no DNS round trip. The override first asks the platform resolver; here that lookup
  fails, and the override fails with it instead of returning the fixed address.
\<close>

theorem patched_getaddrinfo_probe_counterexample:
  "contains ''/resolve'' ''https://www.google.com/resolve?name=r1.example''
   \<and> last_url world_probe (get_ident (plain_env timeout_net))
     = Some ''https://www.google.com/resolve?name=r1.example''
   \<and> patched_getaddrinfo (plain_env timeout_net) (''www.google.com'', 443, 0, 1, 0, 0) world_probe
     = Some (Inl (OSError ''gaierror''), world_probe)"
proof -
  have "contains ''/resolve'' ''https://www.google.com/resolve?name=r1.example''"
    by code_simp
  then show ?thesis
    by (simp add: patched_getaddrinfo_def plain_env_def world_probe_def world0_def)
qed

text \<open>
  Claim C8, amended. When the last URL of the thread contains \<^verbatim>\<open>/resolve\<close> (as it
  does when its path contains it) and the platform resolver, which is asked first,
  returns a list that is not empty, the override returns one entry: the platform's
  first entry with its socket address replaced by \<^verbatim>\<open>('216.239.36.36', 443)\<close>. The
  state is unchanged: no request is sent and the DNS-over-HTTPS resolver is not called.
\<close>

theorem patched_getaddrinfo_probe:
  assumes url: "last_url w (get_ident env) = Some (before @ pth @ after)"
    and probe: "contains ''/resolve'' pth"
    and res: "orig_getaddrinfo env args = Inr (first # rest)"
  shows "patched_getaddrinfo env args w
         = Some (Inr [first\<lparr>ai_sockaddr := Inet ''216.239.36.36'' 443\<rparr>], w)"
proof -
  define u where "u = before @ pth @ after"
  from probe have c: "contains ''/resolve'' u"
    unfolding u_def by (simp add: contains_append contains_prepend)
  then have ne: "u \<noteq> []"
    by (rule contains_nonempty)
  from url have "last_url w (get_ident env) = Some u"
    by (simp add: u_def)
  with c ne show ?thesis
    by (simp add: patched_getaddrinfo_def res redirect_def dns_resolver_def)
qed

theorem patched_getaddrinfo_probe_witness:
  "last_url world_probe (get_ident resolving_env)
   = Some (''https://www.google.com'' @ ''/resolve'' @ ''?name=r1.example'')
   \<and> contains ''/resolve'' ''/resolve''
   \<and> orig_getaddrinfo resolving_env (''www.google.com'', 443, 0, 1, 0, 0) = Inr [platform_answer]
   \<and> patched_getaddrinfo resolving_env (''www.google.com'', 443, 0, 1, 0, 0) world_probe
     = Some (Inr [platform_answer\<lparr>ai_sockaddr := Inet ''216.239.36.36'' 443\<rparr>], world_probe)"
proof -
  have url: "last_url world_probe (get_ident resolving_env)
             = Some (''https://www.google.com'' @ ''/resolve'' @ ''?name=r1.example'')"
    by (simp add: world_probe_def world0_def resolving_env_def plain_env_def)
  have probe: "contains ''/resolve'' ''/resolve''"
    by code_simp
  have res: "orig_getaddrinfo resolving_env (''www.google.com'', 443, 0, 1, 0, 0)
             = Inr [platform_answer]"
    by (simp add: resolving_env_def)
  from patched_getaddrinfo_probe [OF url probe res] url probe res show ?thesis
    by simp
qed

subsection \<open>The chain of a DNS answer\<close>

lemma scan_cyclic:
  "scan [\<lparr>rr_name = Some ''a.example.'', rr_data = Some ''a.example.''\<rparr>] ''a.example.'' False
   = Inr (''a.example.'', True)"
  by simp

lemma search_loop_cyclic:
  assumes ret: "search_loop answers ip = Some y"
  shows "\<not> (answers = Some [\<lparr>rr_name = Some ''a.example.'', rr_data = Some ''a.example.''\<rparr>]
            \<and> ip = ''a.example.'')"
proof (rule search_loop.raw_induct
         [where P = "\<lambda>answers ip y.
              \<not> (answers = Some [\<lparr>rr_name = Some ''a.example.'', rr_data = Some ''a.example.''\<rparr>]
                 \<and> ip = ''a.example.'')", OF _ ret])
  fix f :: "dns_entry list option \<Rightarrow> string \<Rightarrow> (error + string) option"
    and answers ip y
  assume IH: "\<And>answers ip y. f answers ip = Some y \<Longrightarrow>
              \<not> (answers = Some [\<lparr>rr_name = Some ''a.example.'', rr_data = Some ''a.example.''\<rparr>]
                 \<and> ip = ''a.example.'')"
    and eq: "(case answers of
                None \<Rightarrow> Some (Inl (KeyError ''Answer''))
              | Some as \<Rightarrow>
                  (case scan as ip False of
                     Inl e \<Rightarrow> Some (Inl e)
                   | Inr (ip', search) \<Rightarrow> if search then f answers ip' else Some (Inr ip')))
             = Some y"
  show "\<not> (answers = Some [\<lparr>rr_name = Some ''a.example.'', rr_data = Some ''a.example.''\<rparr>]
            \<and> ip = ''a.example.'')"
  proof
    assume c: "answers = Some [\<lparr>rr_name = Some ''a.example.'', rr_data = Some ''a.example.''\<rparr>]
               \<and> ip = ''a.example.''"
    with eq have "f answers ip = Some y"
      by (simp add: scan_cyclic)
    from IH [OF this] c show False by simp
  qed
qed

text \<open>
  Claim C9, as stated: the loop ends for every well-formed answer. This answer is
  well-formed, its one entry has the question's name as name and as data, and the call
  never returns.
\<close>

theorem read_ip_cyclic_counterexample:
  "read_ip_from_dns_answer cyclic_answer = None"
proof (cases "read_ip_from_dns_answer cyclic_answer")
  case None
  then show ?thesis .
next
  case (Some y)
  then have "search_loop
               (Some [\<lparr>rr_name = Some ''a.example.'', rr_data = Some ''a.example.''\<rparr>])
               ''a.example.'' = Some y"
    by (simp add: read_ip_from_dns_answer_def cyclic_answer_def)
  from search_loop_cyclic [OF this] show ?thesis by simp
qed

lemma follows_mono: "set as \<subseteq> set bs \<Longrightarrow> follows as x y \<Longrightarrow> follows bs x y"
  by (auto simp: follows_def)

lemma scan_step:
  assumes wf: "\<forall>e\<in>set answers. \<exists>n d. rr_name e = Some n \<and> rr_data e = Some d
                              \<and> (rank d :: nat) < rank n"
  shows "set as \<subseteq> set answers \<Longrightarrow>
         \<exists>ip' search'. scan as ip search = Inr (ip', search')
           \<and> (follows answers)\<^sup>*\<^sup>* ip ip'
           \<and> ((ip' = ip \<and> search' = search \<and> (\<forall>e\<in>set as. rr_name e \<noteq> Some ip))
              \<or> (search' \<and> rank ip' < rank ip))"
proof (induction as arbitrary: ip search)
  case Nil
  then show ?case by simp
next
  case (Cons a as)
  from Cons.prems wf obtain n d where a: "rr_name a = Some n" "rr_data a = Some d"
    and r: "rank d < rank n"
    by (meson list.set_intros(1) subsetD)
  from Cons.prems have sub: "set as \<subseteq> set answers" by simp
  show ?case
  proof (cases "ip = n")
    case True
    from Cons.IH [OF sub, of d True]
    obtain ip' search' where s: "scan as d True = Inr (ip', search')"
      and f: "(follows answers)\<^sup>*\<^sup>* d ip'"
      and c: "(ip' = d \<and> search' = True \<and> (\<forall>e\<in>set as. rr_name e \<noteq> Some d))
              \<or> (search' \<and> rank ip' < rank d)"
      by blast
    from Cons.prems a True have "follows answers ip d"
      by (auto simp: follows_def)
    from this f have f': "(follows answers)\<^sup>*\<^sup>* ip ip'"
      by (rule converse_rtranclp_into_rtranclp)
    from c r True have "search' \<and> rank ip' < rank ip"
      by auto
    moreover from s a True have "scan (a # as) ip search = Inr (ip', search')"
      by simp
    ultimately show ?thesis using f' by blast
  next
    case False
    from Cons.IH [OF sub, of ip search]
    obtain ip' search' where s: "scan as ip search = Inr (ip', search')"
      and f: "(follows answers)\<^sup>*\<^sup>* ip ip'"
      and c: "(ip' = ip \<and> search' = search \<and> (\<forall>e\<in>set as. rr_name e \<noteq> Some ip))
              \<or> (search' \<and> rank ip' < rank ip)"
      by blast
    from s a False have "scan (a # as) ip search = Inr (ip', search')"
      by simp
    with f c a False show ?thesis by auto
  qed
qed

lemma search_loop_returns:
  assumes wf: "\<forall>e\<in>set answers. \<exists>n d. rr_name e = Some n \<and> rr_data e = Some d
                              \<and> (rank d :: nat) < rank n"
  shows "\<exists>ip'. search_loop (Some answers) ip = Some (Inr ip')
           \<and> (\<forall>e\<in>set answers. rr_name e \<noteq> Some ip')
           \<and> (follows answers)\<^sup>*\<^sup>* ip ip'"
proof (induction "rank ip" arbitrary: ip rule: less_induct)
  case less
  from scan_step [OF wf subset_refl, of ip False]
  obtain ip1 search1 where s: "scan answers ip False = Inr (ip1, search1)"
    and f: "(follows answers)\<^sup>*\<^sup>* ip ip1"
    and c: "(ip1 = ip \<and> search1 = False \<and> (\<forall>e\<in>set answers. rr_name e \<noteq> Some ip))
              \<or> (search1 \<and> rank ip1 < rank ip)"
    by blast
  from c show ?case
  proof
    assume "ip1 = ip \<and> search1 = False \<and> (\<forall>e\<in>set answers. rr_name e \<noteq> Some ip)"
    with s have "search_loop (Some answers) ip = Some (Inr ip)"
      by (subst search_loop.simps) simp
    with \<open>ip1 = ip \<and> search1 = False \<and> (\<forall>e\<in>set answers. rr_name e \<noteq> Some ip)\<close>
    show ?thesis by blast
  next
    assume d: "search1 \<and> rank ip1 < rank ip"
    with less [of ip1] obtain ip' where r: "search_loop (Some answers) ip1 = Some (Inr ip')"
      and n: "\<forall>e\<in>set answers. rr_name e \<noteq> Some ip'"
      and f': "(follows answers)\<^sup>*\<^sup>* ip1 ip'"
      by blast
    from s d r have "search_loop (Some answers) ip = Some (Inr ip')"
      by (subst search_loop.simps) simp
    moreover from f f' have "(follows answers)\<^sup>*\<^sup>* ip ip'"
      by (rule rtranclp_trans)
    ultimately show ?thesis using n by blast
  qed
qed

text \<open>
  Claim C9, amended. Take a well-formed answer (a first question with a name, an
  answer list whose entries all have a name and a data) without cycles: some rank of
  the names is lower at the data of each entry than at its name. Then the loop ends and
  returns a value that is reached from the question's name by replacing the working
  value with the data of an entry of that name, zero or more times, and that is the
  name of no entry.
\<close>

theorem read_ip_terminates:
  assumes q: "Question json_data = Some (q # qs)" "rr_name q = Some name0"
    and a: "Answer json_data = Some answers"
    and wf: "\<forall>e\<in>set answers. \<exists>n d. rr_name e = Some n \<and> rr_data e = Some d
                              \<and> (rank d :: nat) < rank n"
  shows "\<exists>ip. read_ip_from_dns_answer json_data = Some (Inr ip)
           \<and> (\<forall>e\<in>set answers. rr_name e \<noteq> Some ip)
           \<and> (follows answers)\<^sup>*\<^sup>* name0 ip"
  using search_loop_returns [OF wf, of name0]
  by (simp add: read_ip_from_dns_answer_def q a)

theorem read_ip_terminates_witness:
  "Question chain_answer = Some [\<lparr>rr_name = Some ''a.example.'', rr_data = None\<rparr>]
   \<and> Answer chain_answer
     = Some [\<lparr>rr_name = Some ''a.example.'', rr_data = Some ''b.example.''\<rparr>,
             \<lparr>rr_name = Some ''b.example.'', rr_data = Some ''93.184.216.34''\<rparr>]
   \<and> chain_rank ''93.184.216.34'' < chain_rank ''b.example.''
   \<and> chain_rank ''b.example.'' < chain_rank ''a.example.''
   \<and> read_ip_from_dns_answer chain_answer = Some (Inr ''93.184.216.34'')"
proof -
  let ?as = "[\<lparr>rr_name = Some ''a.example.'', rr_data = Some ''b.example.''\<rparr>,
              \<lparr>rr_name = Some ''b.example.'', rr_data = Some ''93.184.216.34''\<rparr>]"
  have q: "Question chain_answer = Some [\<lparr>rr_name = Some ''a.example.'', rr_data = None\<rparr>]"
    "rr_name \<lparr>rr_name = Some ''a.example.'', rr_data = None\<rparr> = Some ''a.example.''"
    by (simp_all add: chain_answer_def)
  have a: "Answer chain_answer = Some ?as"
    by (simp add: chain_answer_def)
  have wf: "\<forall>e\<in>set ?as. \<exists>n d. rr_name e = Some n \<and> rr_data e = Some d
                               \<and> chain_rank d < chain_rank n"
    by (simp add: chain_rank_def)
  from read_ip_terminates [OF q a wf]
  obtain ip where r: "read_ip_from_dns_answer chain_answer = Some (Inr ip)"
    and n: "\<forall>e\<in>set ?as. rr_name e \<noteq> Some ip"
    and f: "(follows ?as)\<^sup>*\<^sup>* ''a.example.'' ip"
    by blast
  have "read_ip_from_dns_answer chain_answer = Some (Inr ''93.184.216.34'')"
    by (simp add: read_ip_from_dns_answer_def chain_answer_def search_loop.simps)
  with r have "ip = ''93.184.216.34''"
    by simp
  with r q a show ?thesis
    by (simp add: chain_rank_def)
qed


end
